theory Spec2Isabelle
  imports Main
begin

section \<open>JavaScript values used by the engine\<close>

text \<open>
  Line numbers are JavaScript numbers that only ever hold integers (they come from
  \<^verbatim>\<open>split('\n').length\<close>, from \<^verbatim>\<open>parseInt\<close> and from additions
  of 1), so they are modelled as \<^typ>\<open>int\<close>. A change type is one of the two string literals
  \<^verbatim>\<open>'added'\<close> and \<^verbatim>\<open>'edited'\<close>; user names are strings.
\<close>

datatype change_kind = Added | Edited

subsection \<open>The built-in Map: an association list in insertion order\<close>

text \<open>
  A JavaScript \<^verbatim>\<open>Map\<close> iterates in insertion order. \<^verbatim>\<open>set\<close> on a
  key that is present replaces the value where the key stands; on a new key it appends.
  \<^verbatim>\<open>delete\<close> removes the entry of the key.
\<close>

type_synonym ('k, 'v) js_map = "('k \<times> 'v) list"

fun js_set :: "'k \<Rightarrow> 'v \<Rightarrow> ('k, 'v) js_map \<Rightarrow> ('k, 'v) js_map" where
  "js_set k v [] = [(k, v)]"
| "js_set k v ((k', v') # kvs) =
     (if k' = k then (k, v) # kvs else (k', v') # js_set k v kvs)"

definition js_delete :: "'k \<Rightarrow> ('k, 'v) js_map \<Rightarrow> ('k, 'v) js_map" where
  "js_delete k kvs = filter (\<lambda>kv. fst kv \<noteq> k) kvs"

definition js_get :: "'k \<Rightarrow> ('k, 'v) js_map \<Rightarrow> 'v option" where
  "js_get k kvs = map_of kvs k"

definition js_values :: "('k, 'v) js_map \<Rightarrow> 'v list" where
  "js_values kvs = map snd kvs"

definition js_keys :: "('k, 'v) js_map \<Rightarrow> 'k list" where
  "js_keys kvs = map fst kvs"

section \<open>Marker.js: the annotation ranges of one side\<close>

text \<open>
  A persistent marker is a DOM element; the engine reads and writes four entries of its
  \<^verbatim>\<open>dataset\<close>: \<^verbatim>\<open>line\<close>, \<^verbatim>\<open>endLine\<close> (always written by
  \<^verbatim>\<open>show\<close> and \<^verbatim>\<open>updateMarkerRange\<close>, so
  \<^verbatim>\<open>parseInt(dataset.endLine || start)\<close> reads it back), \<^verbatim>\<open>rawUser\<close> and
  \<^verbatim>\<open>changeType\<close>. The label and the pixel geometry are rendering only.
  \<^verbatim>\<open>persistentMarkers\<close> is a Map from the start line to the element.
\<close>

record marker =
  line :: int
  endLine :: int
  rawUser :: string
  changeType :: change_kind

type_synonym markers = "(int, marker) js_map"

text \<open>
  \<^verbatim>\<open>updateMarkerRange(marker, newStart, newEnd)\<close>: delete the old key, write the
  new range into the element, store the element under the new key.
\<close>

definition updateMarkerRange :: "marker \<Rightarrow> int \<Rightarrow> int \<Rightarrow> markers \<Rightarrow> markers" where
  "updateMarkerRange m newStart newEnd pm =
     (let oldStart = line m;
          pm1 = js_delete oldStart pm
      in js_set newStart (m\<lparr>line := newStart, endLine := newEnd\<rparr>) pm1)"

text \<open>
  The loop of \<^verbatim>\<open>consolidateAllMarkers\<close> over the sorted local array, with its index
  \<open>i\<close>; \<open>cur\<close> and \<open>nxt\<close> are the source's \<^verbatim>\<open>curr\<close> and \<^verbatim>\<open>next\<close>.
  The test reads the two users and the two ranges only. On a merge (\<open>mergeNext\<close> is
  what the body of the \<^verbatim>\<open>if\<close> does to the Map) \<open>nxt\<close> leaves the Map
  and the array (\<^verbatim>\<open>splice(i + 2, 1)\<close> after \<^verbatim>\<open>i--\<close>), \<open>cur\<close> is updated
  in place (the array holds the same element, so it sees the new end; its
  \<^verbatim>\<open>dataset.line\<close> is rewritten with the value it had), and the index stays;
  otherwise the index advances.
\<close>

definition mergeNext :: "marker \<Rightarrow> marker \<Rightarrow> markers \<Rightarrow> markers" where
  "mergeNext cur nxt pm =
     (let currStart = line cur;
          nextStart = line nxt;
          nextEnd = endLine nxt;
          newEnd = nextEnd;
          pm1 = js_delete nextStart pm
      in updateMarkerRange cur currStart newEnd pm1)"

function consolidate_loop :: "marker list \<Rightarrow> nat \<Rightarrow> markers \<Rightarrow> markers" where
  "consolidate_loop ms i pm =
     (if i + 1 < length ms then
        (let cur = ms ! i;
             nxt = ms ! (i + 1);
             currEnd = endLine cur;
             nextStart = line nxt;
             nextEnd = endLine nxt;
             currUser = rawUser cur;
             nextUser = rawUser nxt
         in if currUser = nextUser \<and> currEnd + 1 = nextStart then
              (let newEnd = nextEnd;
                   cur' = cur\<lparr>endLine := newEnd\<rparr>
               in consolidate_loop (take i ms @ cur' # drop (i + 2) ms) i (mergeNext cur nxt pm))
            else consolidate_loop ms (i + 1) pm)
      else pm)"
  by pat_completeness auto
termination
  by (relation "measure (\<lambda>(ms, i, pm). 2 * length ms - i)") auto

declare consolidate_loop.simps [simp del]

definition consolidateAllMarkers :: "markers \<Rightarrow> markers" where
  "consolidateAllMarkers pm =
     (let ms = sort_key line (js_values pm)
      in if length ms < 2 then pm else consolidate_loop ms 0 pm)"

text \<open>
  The search loop of \<^verbatim>\<open>Marker.show\<close> over the snapshot of the Map's values: the
  first element of the same user and change type that meets case A, B or C (tried in this
  order) is updated and the loop breaks (\<open>Some\<close>); \<open>None\<close> when the loop ends with
  \<^verbatim>\<open>merged\<close> still false.
\<close>

fun show_scan :: "marker list \<Rightarrow> int \<Rightarrow> int \<Rightarrow> string \<Rightarrow> change_kind \<Rightarrow> markers
    \<Rightarrow> markers option" where
  "show_scan [] currentStart currentEnd userName ct pm = None"
| "show_scan (existingMarker # rest) currentStart currentEnd userName ct pm =
     (let exStart = line existingMarker;
          exEnd = endLine existingMarker;
          exUser = rawUser existingMarker;
          exType = changeType existingMarker
      in if exUser = userName \<and> exType = ct then
           (if exEnd + 1 = currentStart then
              Some (updateMarkerRange existingMarker exStart currentEnd pm)
            else if currentEnd + 1 = exStart then
              Some (updateMarkerRange existingMarker currentStart exEnd pm)
            else if (currentStart \<ge> exStart \<and> currentStart \<le> exEnd)
                    \<or> (currentEnd \<ge> exStart \<and> currentEnd \<le> exEnd) then
              Some (updateMarkerRange existingMarker
                      (min exStart currentStart) (max exEnd currentEnd) pm)
            else show_scan rest currentStart currentEnd userName ct pm)
         else show_scan rest currentStart currentEnd userName ct pm)"

text \<open>
  \<^verbatim>\<open>Marker.show(lineNumber, userName, persistent, changeType, endLine)\<close>. The
  parameter \<^verbatim>\<open>persistent\<close> is never read. \<open>editor\<close> says whether the query for
  the \<^verbatim>\<open>.code-editor\<close> element finds one. \<open>lineNumber\<close> and \<open>endLn\<close> (the parameter \<^verbatim>\<open>endLine\<close>) may be
  \<^verbatim>\<open>null\<close>; \<^verbatim>\<open>endLine ? endLine : lineNumber\<close> also takes the line number
  when \<open>endLn\<close> is 0.
\<close>

definition Marker_show :: "bool \<Rightarrow> int option \<Rightarrow> string \<Rightarrow> change_kind \<Rightarrow> int option
    \<Rightarrow> markers \<Rightarrow> markers" where
  "Marker_show editor lineNumber userName ct endLn pm =
     (case lineNumber of
        None \<Rightarrow> pm
      | Some ln \<Rightarrow>
          if ln < 1 then pm
          else if \<not> editor then pm
          else
            (let currentStart = ln;
                 currentEnd = (case endLn of
                                 None \<Rightarrow> ln
                               | Some e \<Rightarrow> if e \<noteq> 0 then e else ln)
             in case show_scan (js_values pm) currentStart currentEnd userName ct pm of
                  Some pm' \<Rightarrow> consolidateAllMarkers pm'
                | None \<Rightarrow>
                    js_set currentStart
                      \<lparr>line = currentStart, endLine = currentEnd,
                       rawUser = userName, changeType = ct\<rparr> pm))"

section \<open>Strings and arrays\<close>

text \<open>
  \<^verbatim>\<open>content.split('\n')\<close> and \<^verbatim>\<open>lines.join('\n')\<close>. Splitting the empty
  string gives one empty line, never an empty array. \<open>js_index\<close> is an array read: a
  read outside the array gives \<^verbatim>\<open>undefined\<close> (\<open>None\<close>).
  \<open>line_or_empty\<close> is \<^verbatim>\<open>lines[n - 1] || ''\<close>.
\<close>

definition newline :: char where
  "newline = CHR 0x0A"

fun split_lines :: "string \<Rightarrow> string list" where
  "split_lines [] = [[]]"
| "split_lines (c # cs) =
     (if c = newline then [] # split_lines cs
      else (case split_lines cs of
              l # ls \<Rightarrow> (c # l) # ls
            | [] \<Rightarrow> [[c]]))"

fun join_lines :: "string list \<Rightarrow> string" where
  "join_lines [] = []"
| "join_lines [l] = l"
| "join_lines (l # l' # ls) = l @ newline # join_lines (l' # ls)"

definition js_index :: "'a list \<Rightarrow> int \<Rightarrow> 'a option" where
  "js_index xs i = (if 0 \<le> i \<and> i < int (length xs) then Some (xs ! nat i) else None)"

definition line_or_empty :: "string list \<Rightarrow> int \<Rightarrow> string" where
  "line_or_empty ls n = (case js_index ls (n - 1) of Some l \<Rightarrow> l | None \<Rightarrow> [])"

text \<open>
  \<^verbatim>\<open>array.findIndex(p)\<close>: the first index whose element satisfies \<open>p\<close>;
  \<open>None\<close> is the source's \<open>-1\<close>.
\<close>

fun findIndex :: "('a \<Rightarrow> bool) \<Rightarrow> 'a list \<Rightarrow> nat option" where
  "findIndex p [] = None"
| "findIndex p (x # xs) = (if p x then Some 0 else map_option Suc (findIndex p xs))"

text \<open>
  \<^verbatim>\<open>array.slice(start, end)\<close> with the clamping of negative and overlong indices
  that the language defines; \<open>None\<close> for an omitted \<open>end\<close>.
\<close>

definition js_clamp :: "nat \<Rightarrow> int \<Rightarrow> nat" where
  "js_clamp len k = (if k < 0 then nat (max (int len + k) 0) else min (nat k) len)"

definition js_slice :: "'a list \<Rightarrow> int \<Rightarrow> int option \<Rightarrow> 'a list" where
  "js_slice xs start fin =
     (let len = length xs;
          from = js_clamp len start;
          to = (case fin of None \<Rightarrow> len | Some e \<Rightarrow> js_clamp len e)
      in take (to - from) (drop from xs))"

section \<open>mergeCode: the positional merge of two buffers\<close>

text \<open>
  The loop \<^verbatim>\<open>for (let i = 0; i < maxLines; i++)\<close> with
  \<^verbatim>\<open>maxLines = Math.max(targetLines.length, sourceLines.length)\<close>; in the last branch
  \<open>i\<close> is below the length of the target, because it is below the maximum and not
  below the length of the source.
\<close>

function merge_loop :: "string list \<Rightarrow> string list \<Rightarrow> nat \<Rightarrow> string list \<Rightarrow> string list" where
  "merge_loop targetLines sourceLines i mergedLines =
     (if i < max (length targetLines) (length sourceLines) then
        (if i < length targetLines \<and> i < length sourceLines then
           (if targetLines ! i \<noteq> sourceLines ! i then
              merge_loop targetLines sourceLines (i + 1) (mergedLines @ [sourceLines ! i])
            else
              merge_loop targetLines sourceLines (i + 1) (mergedLines @ [targetLines ! i]))
         else if i < length sourceLines then
           merge_loop targetLines sourceLines (i + 1) (mergedLines @ [sourceLines ! i])
         else
           merge_loop targetLines sourceLines (i + 1) (mergedLines @ [targetLines ! i]))
      else mergedLines)"
  by pat_completeness auto
termination
  by (relation "measure (\<lambda>(t, s, i, m). max (length t) (length s) - i)") auto

declare merge_loop.simps [simp del]

definition mergeCode :: "string \<Rightarrow> string \<Rightarrow> string" where
  "mergeCode targetContent sourceContent =
     (let targetLines = split_lines targetContent;
          sourceLines = split_lines sourceContent
      in join_lines (merge_loop targetLines sourceLines 0 []))"

section \<open>ChangeBlock.js: the pending blocks a side displays\<close>

text \<open>
  \<^verbatim>\<open>this.blocks\<close> maps a block id to
  \<^verbatim>\<open>{element, startLine, endLine, userName, changes, changeType}\<close>; the element is
  rendering only.
\<close>

record blockData =
  startLine_d :: int
  endLine_d :: int
  userName_d :: string
  changes_d :: "string list"
  changeType_d :: change_kind

type_synonym blocks = "(string, blockData) js_map"

definition ChangeBlock_remove :: "string \<Rightarrow> blocks \<Rightarrow> blocks" where
  "ChangeBlock_remove blockId bs =
     (case js_get blockId bs of
        Some blockData \<Rightarrow> js_delete blockId bs
      | None \<Rightarrow> bs)"

definition ChangeBlock_create :: "string \<Rightarrow> int \<Rightarrow> int \<Rightarrow> string \<Rightarrow> string list \<Rightarrow> change_kind
    \<Rightarrow> blocks \<Rightarrow> blocks" where
  "ChangeBlock_create blockId startLine endLn userName changes ct bs =
     js_set blockId
       \<lparr>startLine_d = startLine, endLine_d = endLn, userName_d = userName,
        changes_d = changes, changeType_d = ct\<rparr>
       (ChangeBlock_remove blockId bs)"

text \<open>
  \<^verbatim>\<open>split(blockId, splitLine)\<close> returns \<^verbatim>\<open>null\<close> (\<open>None\<close>) or the two
  new ids, and leaves the Map changed.
\<close>

definition ChangeBlock_split :: "string \<Rightarrow> int \<Rightarrow> blocks \<Rightarrow> (string \<times> string) option \<times> blocks" where
  "ChangeBlock_split blockId splitLine bs =
     (case js_get blockId bs of
        None \<Rightarrow> (None, bs)
      | Some blockData \<Rightarrow>
          (let startLine = startLine_d blockData;
               endLn = endLine_d blockData;
               userName = userName_d blockData;
               changes = changes_d blockData;
               ct = changeType_d blockData
           in if splitLine \<le> startLine \<or> splitLine \<ge> endLn then (None, bs)
              else
                (let relativeSplit = splitLine - startLine;
                     firstPartChanges = js_slice changes 0 (Some relativeSplit);
                     secondPartChanges = js_slice changes relativeSplit None;
                     firstBlockId = blockId @ ''-part1'';
                     secondBlockId = blockId @ ''-part2'';
                     bs1 = ChangeBlock_create firstBlockId startLine (splitLine - 1) userName
                             firstPartChanges ct bs;
                     bs2 = ChangeBlock_create secondBlockId splitLine endLn userName
                             secondPartChanges ct bs1;
                     bs3 = ChangeBlock_remove blockId bs2
                 in (Some (firstBlockId, secondBlockId), bs3))))"

text \<open>
  \<^verbatim>\<open>ChangeBlock.adjustByContent(oldLines, newLines)\<close>: the first pass collects
  \<^verbatim>\<open>blocksToUpdate\<close>, the second writes the new lines into the entries.
  \<^verbatim>\<open>changes[0]\<close> of an empty array is \<^verbatim>\<open>undefined\<close>, which no line equals.
\<close>

definition block_move :: "string list \<Rightarrow> blockData \<Rightarrow> (int \<times> int) option" where
  "block_move newLines blockData =
     (case js_index (changes_d blockData) 0 of
        None \<Rightarrow> None
      | Some firstChange \<Rightarrow>
          (case findIndex (\<lambda>l. l = firstChange) newLines of
             None \<Rightarrow> None
           | Some newStartIndex \<Rightarrow>
               (let newStartLine = int newStartIndex + 1;
                    newEndLine = newStartLine + int (length (changes_d blockData)) - 1
                in if newStartLine \<noteq> startLine_d blockData \<or> newEndLine \<noteq> endLine_d blockData
                   then Some (newStartLine, newEndLine)
                   else None)))"

fun blocksToUpdate :: "string list \<Rightarrow> blocks \<Rightarrow> (string \<times> int \<times> int) list" where
  "blocksToUpdate newLines [] = []"
| "blocksToUpdate newLines ((blockId, blockData) # rest) =
     (case block_move newLines blockData of
        Some (newStartLine, newEndLine) \<Rightarrow>
          (blockId, newStartLine, newEndLine) # blocksToUpdate newLines rest
      | None \<Rightarrow> blocksToUpdate newLines rest)"

fun apply_block_updates :: "(string \<times> int \<times> int) list \<Rightarrow> blocks \<Rightarrow> blocks" where
  "apply_block_updates [] bs = bs"
| "apply_block_updates ((blockId, newStartLine, newEndLine) # rest) bs =
     apply_block_updates rest
       (case js_get blockId bs of
          Some blockData \<Rightarrow>
            js_set blockId (blockData\<lparr>startLine_d := newStartLine, endLine_d := newEndLine\<rparr>) bs
        | None \<Rightarrow> bs)"

definition ChangeBlock_adjustByContent :: "string list \<Rightarrow> string list \<Rightarrow> blocks \<Rightarrow> blocks" where
  "ChangeBlock_adjustByContent oldLines newLines bs =
     apply_block_updates (blocksToUpdate newLines bs) bs"

section \<open>GutterIcons.js and Marker.js: adjustByContent\<close>

text \<open>
  \<^verbatim>\<open>this.icons\<close> is keyed by a line number for a single-line icon; a range shown
  from \<open>s\<close> to \<open>e\<close> is stored under the string \<^verbatim>\<open>`${lineNumber}-${endLine}`\<close>
  (\<open>RangeKey s e\<close>, for instance \<^verbatim>\<open>'4-5'\<close>) and, when \<open>e\<close> is greater than \<open>s\<close>,
  its end icon under \<^verbatim>\<open>`${iconKey}-end`\<close> (\<open>RangeEndKey s e\<close>, for instance
  \<^verbatim>\<open>'4-5-end'\<close>). In \<^verbatim>\<open>lineNumber <= oldLines.length\<close> a string key of these
  shapes converts to NaN, so the comparison is false for it.
\<close>

datatype icon_key = LineKey int | RangeKey int int | RangeEndKey int int

record icon =
  line_i :: int
  endLine_i :: "int option"
  userName_i :: string
  changeType_i :: change_kind

type_synonym icons = "(icon_key, icon) js_map"

text \<open>The exception a DOM query raises on a selector that is not valid CSS.\<close>

datatype js_error = SyntaxError

text \<open>
  \<^verbatim>\<open>updatePositions()\<close> visits the icons in the Map's order and queries
  \<^verbatim>\<open>`span:nth-child(${lineNumber})`\<close> with the key. With a number the selector is
  valid. With a range key it is \<^verbatim>\<open>span:nth-child(4-5)\<close> or
  \<^verbatim>\<open>span:nth-child(4-5-end)\<close>, which is not valid, and
  \<^verbatim>\<open>querySelector\<close> throws. What the visits before the throw write is pixel
  positions only, so the Map is the same whether the call returns or throws.
\<close>

fun GutterIcons_updatePositions :: "icons \<Rightarrow> js_error + unit" where
  "GutterIcons_updatePositions [] = Inr ()"
| "GutterIcons_updatePositions ((LineKey lineNumber, ic) # rest) = GutterIcons_updatePositions rest"
| "GutterIcons_updatePositions ((RangeKey s e, ic) # rest) = Inl SyntaxError"
| "GutterIcons_updatePositions ((RangeEndKey s e, ic) # rest) = Inl SyntaxError"

text \<open>
  \<^verbatim>\<open>GutterIcons.adjustByContent(oldLines, newLines)\<close>: the first pass collects
  \<^verbatim>\<open>iconsToUpdate\<close>; the second pass, in that order, deletes the old key and stores
  the icon under the new line; when any icon was collected, \<^verbatim>\<open>updatePositions()\<close>
  runs last. The result is the outcome of the call (\<open>Inl\<close> the exception that leaves
  it, \<open>Inr ()\<close> a normal return) and the Map after it: the Map is written before
  \<^verbatim>\<open>updatePositions()\<close> runs, so an exception does not undo it.
\<close>

definition icon_move :: "string list \<Rightarrow> string list \<Rightarrow> icon_key \<Rightarrow> int option" where
  "icon_move oldLines newLines key =
     (case key of
        LineKey lineNumber \<Rightarrow>
          if lineNumber \<le> int (length oldLines) then
            (let oldLineContent = js_index oldLines (lineNumber - 1)
             in case findIndex (\<lambda>l. Some l = oldLineContent) newLines of
                  None \<Rightarrow> None
                | Some newLineIndex \<Rightarrow>
                    (let newLineNumber = int newLineIndex + 1
                     in if newLineNumber \<noteq> lineNumber then Some newLineNumber else None))
          else None
      | RangeKey s e \<Rightarrow> None
      | RangeEndKey s e \<Rightarrow> None)"

fun iconsToUpdate :: "string list \<Rightarrow> string list \<Rightarrow> icons \<Rightarrow> (icon \<times> icon_key \<times> int) list" where
  "iconsToUpdate oldLines newLines [] = []"
| "iconsToUpdate oldLines newLines ((key, ic) # rest) =
     (case icon_move oldLines newLines key of
        Some newLine \<Rightarrow> (ic, key, newLine) # iconsToUpdate oldLines newLines rest
      | None \<Rightarrow> iconsToUpdate oldLines newLines rest)"

fun apply_icon_updates :: "(icon \<times> icon_key \<times> int) list \<Rightarrow> icons \<Rightarrow> icons" where
  "apply_icon_updates [] ics = ics"
| "apply_icon_updates ((ic, oldLine, newLine) # rest) ics =
     apply_icon_updates rest
       (js_set (LineKey newLine) (ic\<lparr>line_i := newLine\<rparr>) (js_delete oldLine ics))"

definition GutterIcons_adjustByContent :: "string list \<Rightarrow> string list \<Rightarrow> icons
    \<Rightarrow> (js_error + unit) \<times> icons" where
  "GutterIcons_adjustByContent oldLines newLines ics =
     (let updates = iconsToUpdate oldLines newLines ics;
          ics' = apply_icon_updates updates ics
      in if length updates > 0 then (GutterIcons_updatePositions ics', ics')
         else (Inr (), ics'))"

text \<open>
  \<^verbatim>\<open>Marker.adjustByContent(oldLines, newLines)\<close> only calls
  \<^verbatim>\<open>updatePosition()\<close>, which recomputes pixel positions from the stored lines and
  writes nothing to \<^verbatim>\<open>persistentMarkers\<close> or to a \<^verbatim>\<open>dataset\<close>.
\<close>

definition Marker_updatePosition :: "markers \<Rightarrow> markers" where
  "Marker_updatePosition pm = pm"

definition Marker_adjustByContent :: "string list \<Rightarrow> string list \<Rightarrow> markers \<Rightarrow> markers" where
  "Marker_adjustByContent oldLines newLines pm = Marker_updatePosition pm"

section \<open>useRealTimeCollaboration.js: the burst detector\<close>

text \<open>
  The entries of \<^verbatim>\<open>recentAdditions\<close> and \<^verbatim>\<open>recentEdits\<close> are
  \<^verbatim>\<open>{line, content, timestamp}\<close>; the values of the \<^verbatim>\<open>changes\<close> Map are
  \<^verbatim>\<open>{changeType, userName, lineNumber, lineContent, timestamp}\<close>; the values of a
  \<^verbatim>\<open>reservations\<close> Map are \<^verbatim>\<open>{userName, timestamp}\<close>.
\<close>

record recent_entry =
  line_r :: int
  content_r :: string
  timestamp_r :: int

record changeData =
  changeType_c :: change_kind
  userName_c :: string
  lineNumber :: int
  lineContent :: string
  timestamp_c :: int

record reservation =
  userName_v :: string
  timestamp_v :: int

text \<open>
  The mutable objects a detector call receives: its window, the \<^verbatim>\<open>changes\<close> Map,
  the \<^verbatim>\<open>reservations\<close> Map and the marker component's
  \<^verbatim>\<open>persistentMarkers\<close>. The gutter icons it also draws are written and never read
  by the detector, and are left out.
\<close>

record side =
  window :: "recent_entry list"
  changes :: "(int, changeData) js_map"
  reservations :: "(int, reservation) js_map"
  persistentMarkers :: markers

text \<open>
  The result object: \<^verbatim>\<open>{isRange: false}\<close>, or
  \<^verbatim>\<open>{isRange: true, startLine, endLine}\<close> with \<^verbatim>\<open>shiftAmount\<close> for an
  insertion.
\<close>

datatype range_result = NotRange | IsRange int int "int option"

text \<open>
  The readings of \<^verbatim>\<open>Date.now()\<close> are parameters: \<open>tEntry\<close> for the new entry,
  \<open>now\<close> for the pruning, \<open>tRes l\<close> when line \<open>l\<close> is reserved.
\<close>

definition reserveTerritory :: "int \<Rightarrow> string \<Rightarrow> int \<Rightarrow> (int, reservation) js_map
    \<Rightarrow> (int, reservation) js_map" where
  "reserveTerritory ln userName t res = js_set ln \<lparr>userName_v = userName, timestamp_v = t\<rparr> res"

text \<open>
  The loop that collects \<^verbatim>\<open>consecutive\<close> from the sorted window: index 0 is always
  taken, a later entry is taken when its line is the previous entry's line plus 1, and
  the loop breaks at the first entry that is not.
\<close>

fun consecutive_from :: "int \<Rightarrow> recent_entry list \<Rightarrow> recent_entry list" where
  "consecutive_from prev [] = []"
| "consecutive_from prev (e # es) =
     (if line_r e = prev + 1 then e # consecutive_from (line_r e) es else [])"

definition collect_consecutive :: "recent_entry list \<Rightarrow> recent_entry list" where
  "collect_consecutive sortedRecent =
     (case sortedRecent of [] \<Rightarrow> [] | e # es \<Rightarrow> e # consecutive_from (line_r e) es)"

text \<open>
  The start of both detectors: the new entry is pushed on the window and the window is
  pruned to the entries less than 500 ms old.
\<close>

definition push_and_prune :: "int \<Rightarrow> string \<Rightarrow> int \<Rightarrow> int \<Rightarrow> recent_entry list
    \<Rightarrow> recent_entry list" where
  "push_and_prune currentLine content tEntry now recentList =
     (let currentLines = split_lines content;
          entry = \<lparr>line_r = currentLine, content_r = line_or_empty currentLines currentLine,
                   timestamp_r = tEntry\<rparr>
      in filter (\<lambda>a. now - timestamp_r a < 500) (recentList @ [entry]))"

text \<open>
  The three loops of a range event: the facts of the collected entries, the
  reservations of the lines from \<^verbatim>\<open>rangeStart\<close> to \<^verbatim>\<open>rangeEnd\<close>, and
  (for an edit) the removal of the markers stored under those lines.
\<close>

definition track_range :: "change_kind \<Rightarrow> string \<Rightarrow> recent_entry list
    \<Rightarrow> (int, changeData) js_map \<Rightarrow> (int, changeData) js_map" where
  "track_range ct userName consecutive chs =
     foldl (\<lambda>m e. js_set (line_r e)
                      \<lparr>changeType_c = ct, userName_c = userName, lineNumber = line_r e,
                       lineContent = content_r e, timestamp_c = timestamp_r e\<rparr> m)
           chs consecutive"

definition reserve_range :: "int \<Rightarrow> int \<Rightarrow> string \<Rightarrow> (int \<Rightarrow> int)
    \<Rightarrow> (int, reservation) js_map \<Rightarrow> (int, reservation) js_map" where
  "reserve_range rangeStart rangeEnd userName tRes res =
     foldl (\<lambda>m l. reserveTerritory l userName (tRes l) m) res [rangeStart..rangeEnd]"

definition remove_individual_markers :: "int \<Rightarrow> int \<Rightarrow> markers \<Rightarrow> markers" where
  "remove_individual_markers rangeStart rangeEnd pm =
     foldl (\<lambda>m l. case js_get l m of Some existingMarker \<Rightarrow> js_delete l m | None \<Rightarrow> m)
           pm [rangeStart..rangeEnd]"

text \<open>
  The two detectors return the result object and the mutated objects.
  \<^verbatim>\<open>recent.sort\<close> sorts the filtered copy, so the window itself keeps the order of
  arrival. \<^verbatim>\<open>rangeStart\<close> is the line of the first sorted entry,
  \<^verbatim>\<open>rangeEnd\<close> the line of the last entry collected; both are read only when the
  window holds more than one entry. The parameter \<^verbatim>\<open>previousLineCount\<close> is never
  read.
\<close>

definition detectRangeEdit :: "bool \<Rightarrow> int \<Rightarrow> string \<Rightarrow> string \<Rightarrow> string \<Rightarrow> int \<Rightarrow> int
    \<Rightarrow> (int \<Rightarrow> int) \<Rightarrow> side \<Rightarrow> range_result \<times> side" where
  "detectRangeEdit editor currentLine content baselineContent userName tEntry now tRes st =
     (let recent = push_and_prune currentLine content tEntry now (window st);
          st1 = st\<lparr>window := recent\<rparr>
      in if length recent > 1 then
           (let sortedRecent = sort_key line_r recent;
                rangeStart = line_r (hd sortedRecent);
                consecutive = collect_consecutive sortedRecent;
                rangeEnd = line_r (last consecutive)
            in if length consecutive \<ge> 2 \<and> rangeEnd > rangeStart then
                 (IsRange rangeStart rangeEnd None,
                  st1\<lparr>reservations :=
                         reserve_range rangeStart rangeEnd userName tRes (reservations st1),
                       changes := track_range Edited userName consecutive (changes st1),
                       persistentMarkers :=
                         Marker_show editor (Some rangeStart) userName Edited (Some rangeEnd)
                           (remove_individual_markers rangeStart rangeEnd
                              (persistentMarkers st1)),
                       window := []\<rparr>)
               else (NotRange, st1))
         else (NotRange, st1))"

definition detectRangeInsertion :: "bool \<Rightarrow> int \<Rightarrow> string \<Rightarrow> string \<Rightarrow> string \<Rightarrow> int \<Rightarrow> int
    \<Rightarrow> (int \<Rightarrow> int) \<Rightarrow> side \<Rightarrow> range_result \<times> side" where
  "detectRangeInsertion editor currentLine content baselineContent userName tEntry now tRes st =
     (let baselineLines = (if baselineContent \<noteq> [] then split_lines baselineContent else []);
          isInsertionBetween = (baselineContent \<noteq> [] \<and> length baselineLines > 0
                                \<and> currentLine \<le> int (length baselineLines));
          recent = push_and_prune currentLine content tEntry now (window st);
          st1 = st\<lparr>window := recent\<rparr>
      in if length recent > 1 then
           (let sortedRecent = sort_key line_r recent;
                rangeStart = line_r (hd sortedRecent);
                consecutive = collect_consecutive sortedRecent;
                rangeEnd = line_r (last consecutive)
            in if length consecutive \<ge> 2 \<and> rangeEnd > rangeStart then
                 (if isInsertionBetween \<and> rangeStart \<le> int (length baselineLines) + 1 then
                    (IsRange rangeStart rangeEnd (Some (rangeEnd - rangeStart + 1)),
                     st1\<lparr>reservations :=
                            reserve_range rangeStart rangeEnd userName tRes (reservations st1),
                          changes := track_range Added userName consecutive (changes st1),
                          persistentMarkers :=
                            Marker_show editor (Some rangeStart) userName Added (Some rangeEnd)
                              (persistentMarkers st1),
                          window := []\<rparr>)
                  else (NotRange, st1))
               else (NotRange, st1))
         else (NotRange, st1))"

text \<open>
  The synchronous part of the editors' \<^verbatim>\<open>onLineEdited\<close> and
  \<^verbatim>\<open>onLineAdded\<close> callbacks (the same text for both users, with the user name as the
  only difference): when the detector reports no range, the triggering line is reserved,
  recorded and shown as a single line. \<open>tFact\<close> is the clock reading of the single fact,
  \<open>tRes ln\<close> that of its reservation.
  The conflict check only logs; the work deferred by \<^verbatim>\<open>setTimeout\<close> and the
  adjustment of the other side's components are not part of the event's own report.
\<close>

definition single_line_event :: "bool \<Rightarrow> change_kind \<Rightarrow> int \<Rightarrow> string \<Rightarrow> string \<Rightarrow> (int \<Rightarrow> int)
    \<Rightarrow> int \<Rightarrow> side \<Rightarrow> side" where
  "single_line_event editor ct ln content userName tRes tFact st =
     (let lines = split_lines content;
          lineContent = line_or_empty lines ln
      in st\<lparr>reservations := reserveTerritory ln userName (tRes ln) (reservations st),
            changes := js_set ln \<lparr>changeType_c = ct, userName_c = userName, lineNumber = ln,
                                  lineContent = lineContent, timestamp_c = tFact\<rparr> (changes st),
            persistentMarkers := Marker_show editor (Some ln) userName ct None
                                   (persistentMarkers st)\<rparr>)"

definition onLineEdited :: "bool \<Rightarrow> int \<Rightarrow> string \<Rightarrow> string \<Rightarrow> string \<Rightarrow> int \<Rightarrow> int
    \<Rightarrow> (int \<Rightarrow> int) \<Rightarrow> int \<Rightarrow> side \<Rightarrow> range_result \<times> side" where
  "onLineEdited editor ln content baselineContent userName tEntry now tRes tFact st =
     (case detectRangeEdit editor ln content baselineContent userName tEntry now tRes st of
        (NotRange, st') \<Rightarrow>
          (NotRange, single_line_event editor Edited ln content userName tRes tFact st')
      | (rangeResult, st') \<Rightarrow> (rangeResult, st'))"

definition onLineAdded :: "bool \<Rightarrow> int \<Rightarrow> string \<Rightarrow> string \<Rightarrow> string \<Rightarrow> int \<Rightarrow> int
    \<Rightarrow> (int \<Rightarrow> int) \<Rightarrow> int \<Rightarrow> side \<Rightarrow> range_result \<times> side" where
  "onLineAdded editor ln content baselineContent userName tEntry now tRes tFact st =
     (case detectRangeInsertion editor ln content baselineContent userName tEntry now tRes st of
        (NotRange, st') \<Rightarrow>
          (NotRange, single_line_event editor Added ln content userName tRes tFact st')
      | (rangeResult, st') \<Rightarrow> (rangeResult, st'))"

section \<open>useRealTimeCollaboration.js: createChangeBlocks\<close>

text \<open>
  A block is \<^verbatim>\<open>{blockId, startLine, endLine, changes, changeType}\<close>. The id is the
  template string \<^verbatim>\<open>`${userName}-block-${Date.now()}-${blocks.length}`\<close>, kept here
  as its three parts; \<open>clock n\<close> is the reading of \<^verbatim>\<open>Date.now()\<close> when the
  block is created while \<^verbatim>\<open>blocks.length\<close> is \<open>n\<close>.
\<close>

record change_block =
  blockId :: "string \<times> int \<times> nat"
  startLine :: int
  endLine_b :: int
  changes_b :: "string list"
  changeType_b :: change_kind

definition new_block :: "string \<Rightarrow> (nat \<Rightarrow> int) \<Rightarrow> change_block list \<Rightarrow> changeData
    \<Rightarrow> change_block" where
  "new_block userName clock blocks change =
     \<lparr>blockId = (userName, clock (length blocks), length blocks),
      startLine = lineNumber change,
      endLine_b = lineNumber change,
      changes_b = [lineContent change],
      changeType_b = changeType_c change\<rparr>"

text \<open>One round of \<^verbatim>\<open>sortedChanges.forEach\<close>, on the pair of \<^verbatim>\<open>blocks\<close> and
  \<^verbatim>\<open>currentBlock\<close> (\<open>None\<close> is \<^verbatim>\<open>null\<close>).\<close>

fun block_step :: "string \<Rightarrow> (nat \<Rightarrow> int) \<Rightarrow> change_block list \<times> change_block option
    \<Rightarrow> changeData \<Rightarrow> change_block list \<times> change_block option" where
  "block_step userName clock (blocks, None) change =
     (blocks, Some (new_block userName clock blocks change))"
| "block_step userName clock (blocks, Some currentBlock) change =
     (if lineNumber change = endLine_b currentBlock + 1 then
        (blocks,
         Some (currentBlock
                 \<lparr>endLine_b := lineNumber change,
                  changes_b := changes_b currentBlock @ [lineContent change],
                  changeType_b :=
                    (if changeType_b currentBlock \<noteq> changeType_c change then Edited
                     else changeType_b currentBlock)\<rparr>))
      else
        (blocks @ [currentBlock],
         Some (new_block userName clock (blocks @ [currentBlock]) change)))"

definition createChangeBlocks :: "changeData list \<Rightarrow> string \<Rightarrow> (nat \<Rightarrow> int) \<Rightarrow> change_block list" where
  "createChangeBlocks chs userName clock =
     (if length chs = 0 then []
      else
        (let sortedChanges = sort_key lineNumber chs
         in case foldl (block_step userName clock) ([], None) sortedChanges of
              (blocks, Some currentBlock) \<Rightarrow> blocks @ [currentBlock]
            | (blocks, None) \<Rightarrow> blocks))"

section \<open>Notions the claims are stated with\<close>

subsection \<open>Well-formed marker Maps\<close>

text \<open>
  Every writer of \<^verbatim>\<open>persistentMarkers\<close> stores an element under the number its
  \<^verbatim>\<open>dataset.line\<close> holds, and a Map has one entry per key.
\<close>

definition wf_markers :: "markers \<Rightarrow> bool" where
  "wf_markers pm = (distinct (map fst pm) \<and> list_all (\<lambda>km. line (snd km) = fst km) pm)"

text \<open>
  The consolidation loop read as a recursion on the part of the array from index \<open>i\<close>
  on; \<open>consolidate_loop_list\<close> below shows it is the same loop.
\<close>

fun consolidate_list :: "marker list \<Rightarrow> markers \<Rightarrow> markers" where
  "consolidate_list (c # n # rest) pm =
     (if rawUser c = rawUser n \<and> endLine c + 1 = line n then
        consolidate_list (c\<lparr>endLine := endLine n\<rparr> # rest) (mergeNext c n pm)
      else consolidate_list (n # rest) pm)"
| "consolidate_list [c] pm = pm"
| "consolidate_list [] pm = pm"

subsection \<open>Consolidated range sets\<close>

text \<open>
  Two ranges touch when one ends right before the other starts or when they share a
  line. A set of ranges is consolidated, in the words of the specification, when no two
  ranges of the same author and change kind touch.
\<close>

definition same_author_kind :: "marker \<Rightarrow> marker \<Rightarrow> bool" where
  "same_author_kind a b = (rawUser a = rawUser b \<and> changeType a = changeType b)"

definition ranges_touch :: "marker \<Rightarrow> marker \<Rightarrow> bool" where
  "ranges_touch a b =
     (endLine a + 1 = line b \<or> endLine b + 1 = line a
      \<or> (line a \<le> endLine b \<and> line b \<le> endLine a))"

fun consolidated :: "marker list \<Rightarrow> bool" where
  "consolidated [] = True"
| "consolidated (m # ms) =
     (list_all (\<lambda>m'. \<not> (same_author_kind m m' \<and> ranges_touch m m')) ms \<and> consolidated ms)"

subsection \<open>The three adjacency cases of the merge-on-insert\<close>

text \<open>
  The candidate range is \<open>[cs, ce]\<close>, the existing range \<open>ex\<close>. \<open>candidate_end\<close> is
  the end line of the candidate that \<^verbatim>\<open>show\<close> takes from its arguments.
  \<open>merged_range\<close> is the range the specification gives to the existing range: the
  first of the three cases that holds decides.
\<close>

definition candidate_end :: "int \<Rightarrow> int option \<Rightarrow> int" where
  "candidate_end ln e = (case e of None \<Rightarrow> ln | Some e' \<Rightarrow> if e' \<noteq> 0 then e' else ln)"

definition bottom_extend :: "marker \<Rightarrow> int \<Rightarrow> bool" where
  "bottom_extend ex cs = (endLine ex + 1 = cs)"

definition top_extend :: "marker \<Rightarrow> int \<Rightarrow> bool" where
  "top_extend ex ce = (ce + 1 = line ex)"

definition overlap :: "marker \<Rightarrow> int \<Rightarrow> int \<Rightarrow> bool" where
  "overlap ex cs ce =
     ((line ex \<le> cs \<and> cs \<le> endLine ex) \<or> (line ex \<le> ce \<and> ce \<le> endLine ex))"

definition adjacency_match :: "string \<Rightarrow> change_kind \<Rightarrow> int \<Rightarrow> int \<Rightarrow> marker \<Rightarrow> bool" where
  "adjacency_match u k cs ce ex =
     (rawUser ex = u \<and> changeType ex = k
      \<and> (bottom_extend ex cs \<or> top_extend ex ce \<or> overlap ex cs ce))"

definition merged_range :: "marker \<Rightarrow> int \<Rightarrow> int \<Rightarrow> int \<times> int" where
  "merged_range ex cs ce =
     (if bottom_extend ex cs then (line ex, ce)
      else if top_extend ex ce then (cs, endLine ex)
      else (min (line ex) cs, max (endLine ex) ce))"

subsection \<open>The line a positional merge takes at an index\<close>

text \<open>
  At an index present in both buffers the source's line when the two lines differ and
  the target's (equal) line otherwise; at an index present in one buffer only, that
  buffer's line.
\<close>

definition pick_line :: "string list \<Rightarrow> string list \<Rightarrow> nat \<Rightarrow> string" where
  "pick_line ts ss i =
     (if i < length ts \<and> i < length ss then (if ts ! i \<noteq> ss ! i then ss ! i else ts ! i)
      else if i < length ss then ss ! i
      else ts ! i)"

subsection \<open>Grouping facts into blocks, in the words of the specification\<close>

text \<open>
  \<open>runs\<close> cuts a list of facts into its runs: a fact whose successor in the list has
  the next line number shares the successor's run, any other gap ends the run. The kind
  of a run is the kind all its facts share, and \<open>Edited\<close> when they do not all share
  one. \<open>groupIntoBlocks\<close> sorts by line number and makes one block of each run, the
  \<open>n\<close>-th with the id parts of index \<open>n\<close>.
\<close>

fun runs :: "changeData list \<Rightarrow> changeData list list" where
  "runs [] = []"
| "runs (f # fs) =
     (case runs fs of
        [] \<Rightarrow> [[f]]
      | r # rs \<Rightarrow>
          if lineNumber (hd r) = lineNumber f + 1 then (f # r) # rs else [f] # r # rs)"

definition run_kind :: "changeData list \<Rightarrow> change_kind" where
  "run_kind r =
     (if list_all (\<lambda>f. changeType_c f = changeType_c (hd r)) r then changeType_c (hd r)
      else Edited)"

definition block_of_run :: "string \<Rightarrow> (nat \<Rightarrow> int) \<Rightarrow> nat \<Rightarrow> changeData list \<Rightarrow> change_block" where
  "block_of_run userName clock n r =
     \<lparr>blockId = (userName, clock n, n),
      startLine = lineNumber (hd r),
      endLine_b = lineNumber (last r),
      changes_b = map lineContent r,
      changeType_b = run_kind r\<rparr>"

definition blocks_from :: "string \<Rightarrow> (nat \<Rightarrow> int) \<Rightarrow> nat \<Rightarrow> changeData list list
    \<Rightarrow> change_block list" where
  "blocks_from userName clock n rs =
     map (\<lambda>(i, r). block_of_run userName clock i r) (enumerate n rs)"

definition groupIntoBlocks :: "changeData list \<Rightarrow> string \<Rightarrow> (nat \<Rightarrow> int) \<Rightarrow> change_block list" where
  "groupIntoBlocks facts userName clock =
     blocks_from userName clock 0 (runs (sort_key lineNumber facts))"

text \<open>
  A list of line numbers in which each is the one before plus 1; a list of runs in which
  no run starts one line after the run before it ends.
\<close>

fun consecutive_lines :: "int list \<Rightarrow> bool" where
  "consecutive_lines (x # y # zs) = (y = x + 1 \<and> consecutive_lines (y # zs))"
| "consecutive_lines [x] = True"
| "consecutive_lines [] = True"

fun gaps_between :: "changeData list list \<Rightarrow> bool" where
  "gaps_between (r # s # rs) =
     (lineNumber (hd s) \<noteq> lineNumber (last r) + 1 \<and> gaps_between (s # rs))"
| "gaps_between [r] = True"
| "gaps_between [] = True"

text \<open>
  For the proofs: the change type the loop computes for a run that starts with type
  \<open>k\<close>, the block after further facts have been folded into it, and the array the loop
  returns from its two variables.
\<close>

definition fold_kind :: "change_kind \<Rightarrow> changeData list \<Rightarrow> change_kind" where
  "fold_kind k r = foldl (\<lambda>k f. if k \<noteq> changeType_c f then Edited else k) k r"

definition extend_block :: "change_block \<Rightarrow> changeData list \<Rightarrow> change_block" where
  "extend_block b r =
     (if r = [] then b
      else b\<lparr>endLine_b := lineNumber (last r),
             changes_b := changes_b b @ map lineContent r,
             changeType_b := fold_kind (changeType_b b) r\<rparr>)"

definition finish :: "change_block list \<times> change_block option \<Rightarrow> change_block list" where
  "finish p = (case p of (blocks, Some b) \<Rightarrow> blocks @ [b] | (blocks, None) \<Rightarrow> blocks)"

subsection \<open>Re-anchoring by content\<close>

text \<open>
  \<open>reanchor_block\<close>: a block whose first recorded line occurs in the new lines starts
  at the first occurrence and keeps its length; any other block stays. \<open>icon_target\<close>:
  the line an icon keyed by the line number \<open>n\<close> moves to, when the old line \<open>n\<close>
  occurs in the new lines at another number; \<open>None\<close> when the icon stays.
  \<open>planned_moves\<close>: the icons that move, in the Map's order, each with its key and
  its target.
\<close>

definition reanchor_block :: "string list \<Rightarrow> blockData \<Rightarrow> blockData" where
  "reanchor_block newLines b =
     (case changes_d b of
        [] \<Rightarrow> b
      | c # cs \<Rightarrow>
          (case findIndex (\<lambda>l. l = c) newLines of
             None \<Rightarrow> b
           | Some j \<Rightarrow> b\<lparr>startLine_d := int j + 1,
                          endLine_d := int j + int (length (changes_d b))\<rparr>))"

definition icon_target :: "string list \<Rightarrow> string list \<Rightarrow> icon_key \<Rightarrow> int option" where
  "icon_target oldLines newLines key =
     (case key of
        LineKey n \<Rightarrow>
          if 1 \<le> n \<and> n \<le> int (length oldLines) then
            (case findIndex (\<lambda>l. l = oldLines ! nat (n - 1)) newLines of
               None \<Rightarrow> None
             | Some j \<Rightarrow> if int j + 1 \<noteq> n then Some (int j + 1) else None)
          else None
      | RangeKey s e \<Rightarrow> None
      | RangeEndKey s e \<Rightarrow> None)"

definition planned_moves :: "string list \<Rightarrow> string list \<Rightarrow> icons
    \<Rightarrow> (icon \<times> icon_key \<times> int) list" where
  "planned_moves oldLines newLines ics =
     List.map_filter
       (\<lambda>kv. map_option (\<lambda>t. (snd kv, fst kv, t)) (icon_target oldLines newLines (fst kv)))
       ics"

text \<open>
  \<open>moves_safe\<close>: the moves are carried out one after the other, and at the moment an
  icon is stored under its new line, no icon is stored under that line. This is exactly
  the case in which no icon is lost (\<open>moves_safe_iff_no_icon_lost\<close> below).
  \<open>is_line_key\<close>: the key of a single-line icon.
\<close>

fun moves_safe :: "(icon \<times> icon_key \<times> int) list \<Rightarrow> icons \<Rightarrow> bool" where
  "moves_safe [] ics = True"
| "moves_safe ((ic, oldLine, newLine) # rest) ics =
     (LineKey newLine \<notin> set (js_keys (js_delete oldLine ics))
      \<and> moves_safe rest
            (js_set (LineKey newLine) (ic\<lparr>line_i := newLine\<rparr>) (js_delete oldLine ics)))"

fun is_line_key :: "icon_key \<Rightarrow> bool" where
  "is_line_key (LineKey n) = True"
| "is_line_key (RangeKey s e) = False"
| "is_line_key (RangeEndKey s e) = False"

subsection \<open>The burst detector's run and facts\<close>

text \<open>
  \<open>burst_run\<close>: the run collected from the pruned window (with the new entry), sorted
  by line number. \<open>range_fact\<close>: the fact a range event records for an entry of the
  run. \<open>single_fact\<close>: the fact a single-line event records for the triggering line.
  \<open>insertion_between\<close>: the guard of the insertion detector, an insertion between
  existing lines: the baseline is not empty, the triggering line is at most the
  baseline's line count, and the run starts at most one line after the baseline's end.
\<close>

definition burst_run :: "int \<Rightarrow> string \<Rightarrow> int \<Rightarrow> int \<Rightarrow> recent_entry list \<Rightarrow> recent_entry list" where
  "burst_run ln content tEntry now w =
     collect_consecutive (sort_key line_r (push_and_prune ln content tEntry now w))"

definition range_fact :: "change_kind \<Rightarrow> string \<Rightarrow> recent_entry \<Rightarrow> changeData" where
  "range_fact ct userName e =
     \<lparr>changeType_c = ct, userName_c = userName, lineNumber = line_r e,
      lineContent = content_r e, timestamp_c = timestamp_r e\<rparr>"

definition single_fact :: "change_kind \<Rightarrow> string \<Rightarrow> int \<Rightarrow> string \<Rightarrow> int \<Rightarrow> changeData" where
  "single_fact ct userName ln content t =
     \<lparr>changeType_c = ct, userName_c = userName, lineNumber = ln,
      lineContent = line_or_empty (split_lines content) ln, timestamp_c = t\<rparr>"

definition insertion_between :: "string \<Rightarrow> int \<Rightarrow> int \<Rightarrow> bool" where
  "insertion_between baselineContent ln rangeStart =
     (baselineContent \<noteq> [] \<and> ln \<le> int (length (split_lines baselineContent))
      \<and> rangeStart \<le> int (length (split_lines baselineContent)) + 1)"

section \<open>Properties of the Map operations and of the consolidation loop\<close>

lemma map_of_js_set: "map_of (js_set k v m) = (map_of m)(k \<mapsto> v)"
  by (induction k v m rule: js_set.induct) (auto simp: fun_eq_iff)

lemma map_of_js_delete: "map_of (js_delete k m) = (map_of m)(k := None)"
  by (induction m) (auto simp: js_delete_def fun_eq_iff)

lemma js_get_js_set: "js_get k' (js_set k v m) = (if k' = k then Some v else js_get k' m)"
  by (simp add: js_get_def map_of_js_set)

lemma js_get_js_delete: "js_get k' (js_delete k m) = (if k' = k then None else js_get k' m)"
  by (simp add: js_get_def map_of_js_delete)

lemma keys_js_set: "fst ` set (js_set k v m) = insert k (fst ` set m)"
  by (induction k v m rule: js_set.induct) auto

lemma keys_js_delete: "fst ` set (js_delete k m) = fst ` set m - {k}"
  by (auto simp: js_delete_def)

lemma set_js_delete: "set (js_delete k m) = {kv \<in> set m. fst kv \<noteq> k}"
  by (auto simp: js_delete_def)

lemma set_js_set_subset: "set (js_set k v m) \<subseteq> insert (k, v) (set m)"
  by (induction k v m rule: js_set.induct) auto

lemma length_js_set:
  "length (js_set k v m) = (if k \<in> fst ` set m then length m else Suc (length m))"
  by (induction k v m rule: js_set.induct) (auto simp: image_iff)

lemma length_js_delete_le: "length (js_delete k m) \<le> length m"
  by (simp add: js_delete_def)

lemma length_js_delete_less: "k \<in> fst ` set m \<Longrightarrow> length (js_delete k m) < length m"
  by (auto simp: js_delete_def intro: length_filter_less)

lemma distinct_js_delete: "distinct (map fst m) \<Longrightarrow> distinct (map fst (js_delete k m))"
  by (simp add: js_delete_def distinct_map_filter)

lemma distinct_js_set: "distinct (map fst m) \<Longrightarrow> distinct (map fst (js_set k v m))"
  by (induction k v m rule: js_set.induct) (auto simp: keys_js_set)

lemma wf_js_delete: "wf_markers pm \<Longrightarrow> wf_markers (js_delete k pm)"
  by (auto simp: wf_markers_def distinct_js_delete list_all_iff set_js_delete)

lemma wf_js_set: "wf_markers pm \<Longrightarrow> line m = k \<Longrightarrow> wf_markers (js_set k m pm)"
  using set_js_set_subset[of k m pm]
  by (auto simp: wf_markers_def distinct_js_set list_all_iff)

lemma wf_updateMarkerRange: "wf_markers pm \<Longrightarrow> wf_markers (updateMarkerRange m s e pm)"
  by (simp add: updateMarkerRange_def Let_def wf_js_set wf_js_delete)

lemma wf_mergeNext: "wf_markers pm \<Longrightarrow> wf_markers (mergeNext c n pm)"
  by (simp add: mergeNext_def Let_def wf_updateMarkerRange wf_js_delete)

lemma length_updateMarkerRange:
  "line m \<in> fst ` set pm \<Longrightarrow> length (updateMarkerRange m s e pm) \<le> length pm"
  using length_js_delete_less[of "line m" pm]
  by (simp add: updateMarkerRange_def Let_def length_js_set)

lemma keys_mergeNext:
  "fst ` set (mergeNext c n pm) = insert (line c) (fst ` set pm - {line n})"
  by (auto simp: mergeNext_def updateMarkerRange_def Let_def keys_js_set keys_js_delete)

lemma length_mergeNext:
  "line c \<in> fst ` set pm \<Longrightarrow> line n \<noteq> line c \<Longrightarrow> length (mergeNext c n pm) \<le> length pm"
proof -
  assume a: "line c \<in> fst ` set pm" "line n \<noteq> line c"
  then have "line c \<in> fst ` set (js_delete (line n) pm)"
    by (simp add: keys_js_delete)
  then have "length (updateMarkerRange c (line c) (endLine n) (js_delete (line n) pm))
               \<le> length (js_delete (line n) pm)"
    by (rule length_updateMarkerRange)
  also have "\<dots> \<le> length pm" by (rule length_js_delete_le)
  finally show ?thesis by (simp add: mergeNext_def Let_def)
qed

lemma consolidate_loop_list:
  "consolidate_loop ms i pm = consolidate_list (drop i ms) pm"
proof (induction ms i pm rule: consolidate_loop.induct)
  case (1 ms i pm)
  show ?case
  proof (cases "i + 1 < length ms")
    case False
    then have "drop i ms = [] \<or> (\<exists>x. drop i ms = [x])"
      by (cases "drop i ms"; cases "tl (drop i ms)") (auto simp: drop_Suc dest!: arg_cong[where f=length])
    with False show ?thesis
      by (subst consolidate_loop.simps) auto
  next
    case True
    then have d: "drop i ms = ms ! i # ms ! (i + 1) # drop (i + 2) ms"
      by (metis Cons_nth_drop_Suc Suc_eq_plus1 Suc_lessD add_2_eq_Suc')
    from True have d': "drop (Suc i) ms = ms ! Suc i # drop (Suc (Suc i)) ms"
      using Cons_nth_drop_Suc[of "Suc i" ms] by simp
    show ?thesis
    proof (cases "rawUser (ms ! i) = rawUser (ms ! (i + 1)) \<and> endLine (ms ! i) + 1 = line (ms ! (i + 1))")
      case m: True
      have "consolidate_loop ms i pm =
            consolidate_loop (take i ms @ (ms ! i)\<lparr>endLine := endLine (ms ! (i + 1))\<rparr> # drop (i + 2) ms) i
              (mergeNext (ms ! i) (ms ! (i + 1)) pm)"
        using True m by (subst consolidate_loop.simps) (simp add: Let_def)
      also have "\<dots> = consolidate_list
            (drop i (take i ms @ (ms ! i)\<lparr>endLine := endLine (ms ! (i + 1))\<rparr> # drop (i + 2) ms))
            (mergeNext (ms ! i) (ms ! (i + 1)) pm)"
        using "1.IH"(1)[OF True refl refl refl refl refl refl refl _ refl refl] m by simp
      also have "\<dots> = consolidate_list (drop i ms) pm"
        using True m by (simp add: d)
      finally show ?thesis .
    next
      case m: False
      have "consolidate_loop ms i pm = consolidate_loop ms (i + 1) pm"
        using True m by (subst consolidate_loop.simps) (auto simp add: Let_def)
      also have "\<dots> = consolidate_list (drop (i + 1) ms) pm"
        using "1.IH"(2)[OF True refl refl refl refl refl refl refl] m by simp
      also have "\<dots> = consolidate_list (drop i ms) pm"
        using m by (auto simp add: d d')
      finally show ?thesis .
    qed
  qed
qed

lemma consolidateAllMarkers_list:
  "consolidateAllMarkers pm = consolidate_list (sort_key line (js_values pm)) pm"
proof (cases "sort_key line (js_values pm)")
  case Nil
  then show ?thesis by (simp add: consolidateAllMarkers_def)
next
  case (Cons a rest)
  then show ?thesis
    by (cases rest) (simp_all add: consolidateAllMarkers_def consolidate_loop_list)
qed

section \<open>Claims about the marker ranges\<close>

lemmas marker_eval =
  Marker_show_def js_values_def updateMarkerRange_def js_delete_def
  consolidateAllMarkers_def consolidate_loop_list mergeNext_def Let_def

lemma show_scan_find:
  "show_scan ms cs ce u k pm =
     map_option (\<lambda>ex. updateMarkerRange ex (fst (merged_range ex cs ce))
                        (snd (merged_range ex cs ce)) pm)
       (find (adjacency_match u k cs ce) ms)"
  by (induction ms)
     (auto simp: Let_def adjacency_match_def merged_range_def bottom_extend_def
        top_extend_def overlap_def)

lemma length_consolidate_list:
  "distinct (map line ms) \<Longrightarrow> line ` set ms \<subseteq> fst ` set pm
   \<Longrightarrow> length (consolidate_list ms pm) \<le> length pm"
proof (induction ms pm rule: consolidate_list.induct)
  case (1 c n rest pm)
  show ?case
  proof (cases "rawUser c = rawUser n \<and> endLine c + 1 = line n")
    case True
    from "1.prems" have ck: "line c \<in> fst ` set pm" and ne: "line n \<noteq> line c"
      by auto
    have d: "distinct (map line (c\<lparr>endLine := endLine n\<rparr> # rest))"
      using "1.prems"(1) by simp
    have s: "line ` set (c\<lparr>endLine := endLine n\<rparr> # rest) \<subseteq> fst ` set (mergeNext c n pm)"
      using "1.prems" by (auto simp: keys_mergeNext) (metis imageI)
    have "length (consolidate_list (c\<lparr>endLine := endLine n\<rparr> # rest) (mergeNext c n pm))
            \<le> length (mergeNext c n pm)"
      using "1.IH"(1)[OF True d s] .
    also have "\<dots> \<le> length pm"
      using ck ne by (rule length_mergeNext)
    finally show ?thesis using True by simp
  next
    case False
    have "length (consolidate_list (n # rest) pm) \<le> length pm"
      using "1.IH"(2)[OF False] "1.prems" by simp
    then show ?thesis using False by auto
  qed
qed simp_all

lemma wf_markers_lines:
  assumes "wf_markers pm"
  shows "map line (js_values pm) = map fst pm"
  using assms by (induction pm) (auto simp: wf_markers_def js_values_def)

lemma wf_markers_key: "wf_markers pm \<Longrightarrow> m \<in> set (js_values pm) \<Longrightarrow> line m \<in> fst ` set pm"
  by (force simp: wf_markers_def js_values_def list_all_iff)

lemma length_consolidateAllMarkers:
  assumes "wf_markers pm"
  shows "length (consolidateAllMarkers pm) \<le> length pm"
proof -
  let ?ms = "sort_key line (js_values pm)"
  have "distinct (map line (js_values pm))"
    using assms by (simp add: wf_markers_lines) (simp add: wf_markers_def)
  then have "distinct (map line ?ms)"
    by (simp add: distinct_map)
  moreover have "line ` set ?ms \<subseteq> fst ` set pm"
    using wf_markers_key[OF assms] by auto
  ultimately show ?thesis
    by (simp add: consolidateAllMarkers_list length_consolidate_list)
qed

lemma wf_consolidate_list: "wf_markers pm \<Longrightarrow> wf_markers (consolidate_list ms pm)"
  by (induction ms pm rule: consolidate_list.induct) (auto simp: wf_mergeNext)

lemma wf_consolidateAllMarkers: "wf_markers pm \<Longrightarrow> wf_markers (consolidateAllMarkers pm)"
  by (simp add: consolidateAllMarkers_list wf_consolidate_list)

lemma wf_Marker_show: "wf_markers pm \<Longrightarrow> wf_markers (Marker_show ed l u k e pm)"
  by (auto simp: Marker_show_def Let_def show_scan_find wf_consolidateAllMarkers
        wf_updateMarkerRange wf_js_set split: option.splits)

text \<open>
  Claim C1 says that no consolidation step ever merges two ranges of different authors
  or of different change kinds. The test in the loop of
  \<^verbatim>\<open>consolidateAllMarkers\<close> compares the users only, where the search loop of
  \<^verbatim>\<open>show\<close> compares the user and the change type. Evaluated on the ranges [1,2]
  added and [3,4] edited of one user: the consolidation pass returns the single range
  [1,4] added, and so does a \<^verbatim>\<open>show\<close> of line 5 that extends [3,4] and then
  consolidates (it returns [1,5] added).
\<close>

theorem consolidate_merges_across_kinds:
  "consolidateAllMarkers
     [(1, \<lparr>line = 1, endLine = 2, rawUser = ''User A'', changeType = Added\<rparr>),
      (3, \<lparr>line = 3, endLine = 4, rawUser = ''User A'', changeType = Edited\<rparr>)]
   = [(1, \<lparr>line = 1, endLine = 4, rawUser = ''User A'', changeType = Added\<rparr>)]
   \<and> Marker_show True (Some 5) ''User A'' Edited None
     [(1, \<lparr>line = 1, endLine = 2, rawUser = ''User A'', changeType = Added\<rparr>),
      (3, \<lparr>line = 3, endLine = 4, rawUser = ''User A'', changeType = Edited\<rparr>)]
   = [(1, \<lparr>line = 1, endLine = 5, rawUser = ''User A'', changeType = Added\<rparr>)]"
  by (simp add: marker_eval)

text \<open>
  Claim C2: a call of \<^verbatim>\<open>show\<close> with a line number of at least 1, on a
  well-formed Map and with the editor element present. When some existing range of the
  candidate's author and kind meets one of the three cases, the first such range in the
  Map's order is the one changed, to the range its first matching case gives
  (bottom-extend before top-extend before overlap); the result of the call is the
  consolidation of that Map, and it holds no more ranges than before. When no existing
  range of that author and kind meets a case, the candidate is stored as a new range
  under its start line.
\<close>

theorem Marker_show_first_match:
  assumes "1 \<le> ln" and "wf_markers pm"
  shows "case find (adjacency_match u k ln (candidate_end ln e)) (js_values pm) of
           Some ex \<Rightarrow>
             Marker_show True (Some ln) u k e pm =
               consolidateAllMarkers
                 (updateMarkerRange ex (fst (merged_range ex ln (candidate_end ln e)))
                    (snd (merged_range ex ln (candidate_end ln e))) pm)
             \<and> js_get (fst (merged_range ex ln (candidate_end ln e)))
                 (updateMarkerRange ex (fst (merged_range ex ln (candidate_end ln e)))
                    (snd (merged_range ex ln (candidate_end ln e))) pm)
               = Some (ex\<lparr>line := fst (merged_range ex ln (candidate_end ln e)),
                           endLine := snd (merged_range ex ln (candidate_end ln e))\<rparr>)
             \<and> length (Marker_show True (Some ln) u k e pm) \<le> length pm
         | None \<Rightarrow>
             Marker_show True (Some ln) u k e pm =
               js_set ln \<lparr>line = ln, endLine = candidate_end ln e, rawUser = u,
                           changeType = k\<rparr> pm
             \<and> js_get ln (Marker_show True (Some ln) u k e pm) =
                 Some \<lparr>line = ln, endLine = candidate_end ln e, rawUser = u, changeType = k\<rparr>"
proof (cases "find (adjacency_match u k ln (candidate_end ln e)) (js_values pm)")
  case None
  then show ?thesis
    using assms(1)
    by (simp add: Marker_show_def Let_def show_scan_find js_get_js_set
          candidate_end_def[symmetric])
next
  case (Some ex)
  let ?s = "fst (merged_range ex ln (candidate_end ln e))"
  let ?t = "snd (merged_range ex ln (candidate_end ln e))"
  have eq: "Marker_show True (Some ln) u k e pm =
              consolidateAllMarkers (updateMarkerRange ex ?s ?t pm)"
    using assms(1) Some
    by (simp add: Marker_show_def Let_def show_scan_find candidate_end_def[symmetric])
  have "ex \<in> set (js_values pm)"
    using Some by (auto simp: find_Some_iff)
  then have key: "line ex \<in> fst ` set pm"
    using assms(2) by (rule wf_markers_key[rotated])
  have "length (consolidateAllMarkers (updateMarkerRange ex ?s ?t pm))
          \<le> length (updateMarkerRange ex ?s ?t pm)"
    by (rule length_consolidateAllMarkers) (rule wf_updateMarkerRange[OF assms(2)])
  also have "\<dots> \<le> length pm"
    using key by (rule length_updateMarkerRange)
  finally have len: "length (Marker_show True (Some ln) u k e pm) \<le> length pm"
    by (simp add: eq)
  have get: "js_get ?s (updateMarkerRange ex ?s ?t pm) = Some (ex\<lparr>line := ?s, endLine := ?t\<rparr>)"
    by (simp add: updateMarkerRange_def Let_def js_get_js_set)
  show ?thesis
    using eq get len by (simp add: Some)
qed

theorem Marker_show_first_match_witness:
  "Marker_show True (Some 3) ''User A'' Added None
     [(5, \<lparr>line = 5, endLine = 6, rawUser = ''User B'', changeType = Edited\<rparr>),
      (4, \<lparr>line = 4, endLine = 4, rawUser = ''User A'', changeType = Added\<rparr>),
      (1, \<lparr>line = 1, endLine = 2, rawUser = ''User A'', changeType = Added\<rparr>)]
   = [(5, \<lparr>line = 5, endLine = 6, rawUser = ''User B'', changeType = Edited\<rparr>),
      (1, \<lparr>line = 1, endLine = 4, rawUser = ''User A'', changeType = Added\<rparr>)]
   \<and> Marker_show True (Some 9) ''User B'' Edited (Some 10)
     [(5, \<lparr>line = 5, endLine = 6, rawUser = ''User A'', changeType = Edited\<rparr>)]
   = [(5, \<lparr>line = 5, endLine = 6, rawUser = ''User A'', changeType = Edited\<rparr>),
      (9, \<lparr>line = 9, endLine = 10, rawUser = ''User B'', changeType = Edited\<rparr>)]"
proof -
  have w1: "wf_markers
     [(5, \<lparr>line = 5, endLine = 6, rawUser = ''User B'', changeType = Edited\<rparr>),
      (4, \<lparr>line = 4, endLine = 4, rawUser = ''User A'', changeType = Added\<rparr>),
      (1, \<lparr>line = 1, endLine = 2, rawUser = ''User A'', changeType = Added\<rparr>)]"
    by (simp add: wf_markers_def)
  have w2: "wf_markers
     [(5, \<lparr>line = 5, endLine = 6, rawUser = ''User A'', changeType = Edited\<rparr>)]"
    by (simp add: wf_markers_def)
  have l1: "(1::int) \<le> 3" and l2: "(1::int) \<le> 9" by simp_all
  show ?thesis
    using Marker_show_first_match[OF l1 w1, of "''User A''" Added None]
          Marker_show_first_match[OF l2 w2, of "''User B''" Edited "Some 10"]
    by (simp add: js_values_def adjacency_match_def bottom_extend_def top_extend_def
          overlap_def merged_range_def candidate_end_def marker_eval)
qed

text \<open>
  Claim C3 (bridging): on a side that holds exactly the ranges [1,2] and [4,5] of one
  author \<open>u\<close> and one kind \<open>k\<close>, in either order of the Map, showing line 3 for \<open>u\<close>
  and \<open>k\<close> (with the end line given as 3 or left out) leaves exactly the range [1,5].
  The search loop first extends one range ([1,3] in the first order, [3,5] in the
  second), the consolidation pass then merges the two, and a further pass changes
  nothing.
\<close>

theorem bridging_yields_single_range:
  "Marker_show True (Some 3) u k (Some 3)
     [(1, \<lparr>line = 1, endLine = 2, rawUser = u, changeType = k\<rparr>),
      (4, \<lparr>line = 4, endLine = 5, rawUser = u, changeType = k\<rparr>)]
   = [(1, \<lparr>line = 1, endLine = 5, rawUser = u, changeType = k\<rparr>)]
   \<and> Marker_show True (Some 3) u k None
     [(1, \<lparr>line = 1, endLine = 2, rawUser = u, changeType = k\<rparr>),
      (4, \<lparr>line = 4, endLine = 5, rawUser = u, changeType = k\<rparr>)]
   = [(1, \<lparr>line = 1, endLine = 5, rawUser = u, changeType = k\<rparr>)]
   \<and> Marker_show True (Some 3) u k (Some 3)
     [(4, \<lparr>line = 4, endLine = 5, rawUser = u, changeType = k\<rparr>),
      (1, \<lparr>line = 1, endLine = 2, rawUser = u, changeType = k\<rparr>)]
   = [(1, \<lparr>line = 1, endLine = 5, rawUser = u, changeType = k\<rparr>)]
   \<and> Marker_show True (Some 3) u k None
     [(4, \<lparr>line = 4, endLine = 5, rawUser = u, changeType = k\<rparr>),
      (1, \<lparr>line = 1, endLine = 2, rawUser = u, changeType = k\<rparr>)]
   = [(1, \<lparr>line = 1, endLine = 5, rawUser = u, changeType = k\<rparr>)]
   \<and> show_scan
       [\<lparr>line = 1, endLine = 2, rawUser = u, changeType = k\<rparr>,
        \<lparr>line = 4, endLine = 5, rawUser = u, changeType = k\<rparr>] 3 3 u k
       [(1, \<lparr>line = 1, endLine = 2, rawUser = u, changeType = k\<rparr>),
        (4, \<lparr>line = 4, endLine = 5, rawUser = u, changeType = k\<rparr>)]
     = Some [(4, \<lparr>line = 4, endLine = 5, rawUser = u, changeType = k\<rparr>),
             (1, \<lparr>line = 1, endLine = 3, rawUser = u, changeType = k\<rparr>)]
   \<and> show_scan
       [\<lparr>line = 4, endLine = 5, rawUser = u, changeType = k\<rparr>,
        \<lparr>line = 1, endLine = 2, rawUser = u, changeType = k\<rparr>] 3 3 u k
       [(4, \<lparr>line = 4, endLine = 5, rawUser = u, changeType = k\<rparr>),
        (1, \<lparr>line = 1, endLine = 2, rawUser = u, changeType = k\<rparr>)]
     = Some [(1, \<lparr>line = 1, endLine = 2, rawUser = u, changeType = k\<rparr>),
             (3, \<lparr>line = 3, endLine = 5, rawUser = u, changeType = k\<rparr>)]
   \<and> consolidateAllMarkers
        [(1, \<lparr>line = 1, endLine = 5, rawUser = u, changeType = k\<rparr>)]
   = [(1, \<lparr>line = 1, endLine = 5, rawUser = u, changeType = k\<rparr>)]"
  by (simp add: marker_eval)

text \<open>
  Claim C9 says that consolidating a set in which no two ranges of the same author and
  change kind touch gives the identical set. The set of [7,7] edited and [8,9] added of
  one user is consolidated in that sense, and the pass turns it into the single range
  [7,9] edited: the loop's test leaves the change type out.
\<close>

theorem consolidate_changes_consolidated_set:
  "consolidated (js_values
     [(7, \<lparr>line = 7, endLine = 7, rawUser = ''User B'', changeType = Edited\<rparr>),
      (8, \<lparr>line = 8, endLine = 9, rawUser = ''User B'', changeType = Added\<rparr>)])
   \<and> consolidateAllMarkers
     [(7, \<lparr>line = 7, endLine = 7, rawUser = ''User B'', changeType = Edited\<rparr>),
      (8, \<lparr>line = 8, endLine = 9, rawUser = ''User B'', changeType = Added\<rparr>)]
   = [(7, \<lparr>line = 7, endLine = 9, rawUser = ''User B'', changeType = Edited\<rparr>)]"
  by (simp add: marker_eval same_author_kind_def ranges_touch_def)

section \<open>Claims about the positional merge\<close>

lemma split_lines_nonempty: "split_lines s \<noteq> []"
  by (induction s) (auto split: list.splits)

lemma split_lines_no_newline: "l \<in> set (split_lines s) \<Longrightarrow> newline \<notin> set l"
  by (induction s arbitrary: l) (auto split: list.splits if_splits)

lemma join_split_lines: "join_lines (split_lines s) = s"
proof (induction s)
  case Nil
  show ?case by simp
next
  case (Cons c cs)
  obtain l ls where sp: "split_lines cs = l # ls"
    using split_lines_nonempty[of cs] by (cases "split_lines cs") auto
  show ?case
  proof (cases "c = newline")
    case True
    with Cons sp show ?thesis by simp
  next
    case False
    with Cons sp show ?thesis by (cases ls) auto
  qed
qed

lemma split_lines_plain: "newline \<notin> set l \<Longrightarrow> split_lines l = [l]"
  by (induction l) auto

lemma split_lines_append:
  "newline \<notin> set l \<Longrightarrow> split_lines (l @ newline # rest) = l # split_lines rest"
  by (induction l) auto

lemma split_join_lines:
  "ls \<noteq> [] \<Longrightarrow> \<forall>l\<in>set ls. newline \<notin> set l \<Longrightarrow> split_lines (join_lines ls) = ls"
proof (induction ls rule: join_lines.induct)
  case 1
  then show ?case by simp
next
  case (2 l)
  then show ?case by (simp add: split_lines_plain)
next
  case (3 l l' ls)
  then show ?case by (simp add: split_lines_append)
qed

lemma merge_loop_map:
  "merge_loop ts ss i acc =
     acc @ map (pick_line ts ss) [i..<max (length ts) (length ss)]"
proof (induction ts ss i acc rule: merge_loop.induct)
  case (1 ts ss i acc)
  show ?case
  proof (cases "i < max (length ts) (length ss)")
    case False
    then show ?thesis by (subst merge_loop.simps) (auto simp: not_less)
  next
    case True
    then have up: "[i..<max (length ts) (length ss)] = i # [i + 1..<max (length ts) (length ss)]"
      by (simp add: upt_conv_Cons)
    have "merge_loop ts ss i acc = merge_loop ts ss (i + 1) (acc @ [pick_line ts ss i])"
      using True by (subst merge_loop.simps) (simp add: pick_line_def)
    also have "\<dots> = (acc @ [pick_line ts ss i]) @ map (pick_line ts ss) [i + 1..<max (length ts) (length ss)]"
      using "1.IH" True by (auto simp: pick_line_def)
    finally show ?thesis by (simp add: up)
  qed
qed

lemma merge_loop_closed: "merge_loop ts ss 0 [] = ss @ drop (length ss) ts"
proof (rule nth_equalityI)
  show "length (merge_loop ts ss 0 []) = length (ss @ drop (length ss) ts)"
    by (simp add: merge_loop_map)
next
  fix i assume "i < length (merge_loop ts ss 0 [])"
  then have i: "i < max (length ts) (length ss)" by (simp add: merge_loop_map)
  then show "merge_loop ts ss 0 [] ! i = (ss @ drop (length ss) ts) ! i"
    by (auto simp: merge_loop_map pick_line_def nth_append)
qed

lemma merged_lines_no_newline:
  "l \<in> set (merge_loop (split_lines T) (split_lines S) 0 []) \<Longrightarrow> newline \<notin> set l"
  by (auto simp: merge_loop_closed split_lines_no_newline dest: in_set_dropD)

lemma split_mergeCode:
  "split_lines (mergeCode T S) = merge_loop (split_lines T) (split_lines S) 0 []"
  unfolding mergeCode_def Let_def
  by (rule split_join_lines) (auto simp: merge_loop_closed split_lines_nonempty
        split_lines_no_newline dest: in_set_dropD)

text \<open>
  Claim C5: the lines of \<open>mergeCode T S\<close> are as many as the longer buffer has, and the
  line at each index is the source's where both buffers have the index and their lines
  differ, the common line where they are equal, and the line of the only buffer that
  has the index otherwise.
\<close>

theorem mergeCode_positional:
  "length (split_lines (mergeCode T S)) = max (length (split_lines T)) (length (split_lines S))
   \<and> (\<forall>i < length (split_lines (mergeCode T S)).
         split_lines (mergeCode T S) ! i =
           (if i < length (split_lines T) \<and> i < length (split_lines S) then
              (if split_lines T ! i \<noteq> split_lines S ! i then split_lines S ! i
               else split_lines T ! i)
            else if i < length (split_lines S) then split_lines S ! i
            else split_lines T ! i))"
  by (simp add: split_mergeCode merge_loop_map pick_line_def)

theorem mergeCode_positional_witness:
  "split_lines (mergeCode [CHR ''a'', CHR 0x0A, CHR ''b'', CHR 0x0A, CHR ''c'']
                          [CHR ''a'', CHR 0x0A, CHR ''x'']) ! 1 = ''x''
   \<and> split_lines (mergeCode [CHR ''a'', CHR 0x0A, CHR ''b'', CHR 0x0A, CHR ''c'']
                          [CHR ''a'', CHR 0x0A, CHR ''x'']) ! 2 = ''c''
   \<and> length (split_lines (mergeCode [CHR ''a'', CHR 0x0A, CHR ''b'', CHR 0x0A, CHR ''c'']
                          [CHR ''a'', CHR 0x0A, CHR ''x''])) = 3"
proof -
  let ?T = "[CHR ''a'', CHR 0x0A, CHR ''b'', CHR 0x0A, CHR ''c'']"
  let ?S = "[CHR ''a'', CHR 0x0A, CHR ''x'']"
  have t: "split_lines ?T = [''a'', ''b'', ''c'']"
    by (simp add: newline_def)
  have s: "split_lines ?S = [''a'', ''x'']"
    by (simp add: newline_def)
  note inst = mergeCode_positional[of ?T ?S, unfolded t s]
  from inst have len: "length (split_lines (mergeCode ?T ?S)) = 3"
    by simp
  from inst len have n1: "split_lines (mergeCode ?T ?S) ! 1 = ''x''"
    by simp
  from inst len have n2: "split_lines (mergeCode ?T ?S) ! 2 = ''c''"
    by simp
  show ?thesis
    using n1 n2 len by simp
qed

text \<open>
  Claim C10: when the source has at least as many lines as the target, the merge is the
  source itself; at every index the source has, the merged line is the source's line;
  the target contributes exactly its lines beyond the source's length.
\<close>

theorem mergeCode_source_prefix:
  "(length (split_lines T) \<le> length (split_lines S) \<longrightarrow> mergeCode T S = S)
   \<and> (\<forall>i < length (split_lines S). split_lines (mergeCode T S) ! i = split_lines S ! i)
   \<and> split_lines (mergeCode T S) = split_lines S @ drop (length (split_lines S)) (split_lines T)"
proof -
  have "mergeCode T S = S" if "length (split_lines T) \<le> length (split_lines S)"
    using that by (simp add: mergeCode_def Let_def merge_loop_closed join_split_lines)
  then show ?thesis
    by (simp add: split_mergeCode merge_loop_closed nth_append)
qed

theorem mergeCode_source_prefix_witness:
  "mergeCode ''ab'' [CHR ''a'', CHR 0x0A, CHR ''x''] = [CHR ''a'', CHR 0x0A, CHR ''x'']"
proof -
  have t: "split_lines ''ab'' = [''ab'']"
    by (simp add: newline_def)
  have s: "split_lines [CHR ''a'', CHR 0x0A, CHR ''x''] = [''a'', ''x'']"
    by (simp add: newline_def)
  note inst = mergeCode_source_prefix[of "''ab''" "[CHR ''a'', CHR 0x0A, CHR ''x'']", unfolded t s]
  from inst show ?thesis
    by simp
qed

section \<open>Claims about the change blocks\<close>

lemma js_slice_prefix: "0 \<le> r \<Longrightarrow> js_slice xs 0 (Some r) = take (nat r) xs"
  by (simp add: js_slice_def js_clamp_def Let_def min_def)

lemma js_slice_suffix: "0 \<le> r \<Longrightarrow> js_slice xs r None = drop (nat r) xs"
  by (simp add: js_slice_def js_clamp_def Let_def min_def)

lemma js_get_remove:
  "js_get k' (ChangeBlock_remove k bs) = (if k' = k then None else js_get k' bs)"
  by (auto simp: ChangeBlock_remove_def js_get_js_delete split: option.splits)

lemma js_get_create:
  "js_get k' (ChangeBlock_create k s e u cs ct bs) =
     (if k' = k then
        Some \<lparr>startLine_d = s, endLine_d = e, userName_d = u, changes_d = cs, changeType_d = ct\<rparr>
      else js_get k' bs)"
  by (simp add: ChangeBlock_create_def js_get_js_set js_get_remove)

text \<open>
  Claim C6: for a block \<open>b\<close> stored under \<open>bid\<close>, with start line \<open>s\<close> and end line
  \<open>e\<close>: \<^verbatim>\<open>split\<close> returns \<^verbatim>\<open>null\<close> and changes nothing when the split
  line is at most \<open>s\<close> or at least \<open>e\<close>. Otherwise it returns the two new ids; the first
  new block covers \<open>[s, l - 1]\<close> with the first \<open>l - s\<close> lines of the contents, the
  second covers \<open>[l, e]\<close> with the remaining lines; the two contents concatenated are
  the original contents; the original block is gone; every other block is untouched.
\<close>

theorem ChangeBlock_split_spec:
  assumes "js_get bid bs = Some b"
  shows "(splitLine \<le> startLine_d b \<or> splitLine \<ge> endLine_d b \<longrightarrow>
            ChangeBlock_split bid splitLine bs = (None, bs))
       \<and> (startLine_d b < splitLine \<and> splitLine < endLine_d b \<longrightarrow>
            fst (ChangeBlock_split bid splitLine bs)
              = Some (bid @ ''-part1'', bid @ ''-part2'')
          \<and> js_get (bid @ ''-part1'') (snd (ChangeBlock_split bid splitLine bs))
              = Some \<lparr>startLine_d = startLine_d b, endLine_d = splitLine - 1,
                      userName_d = userName_d b,
                      changes_d = take (nat (splitLine - startLine_d b)) (changes_d b),
                      changeType_d = changeType_d b\<rparr>
          \<and> js_get (bid @ ''-part2'') (snd (ChangeBlock_split bid splitLine bs))
              = Some \<lparr>startLine_d = splitLine, endLine_d = endLine_d b,
                      userName_d = userName_d b,
                      changes_d = drop (nat (splitLine - startLine_d b)) (changes_d b),
                      changeType_d = changeType_d b\<rparr>
          \<and> take (nat (splitLine - startLine_d b)) (changes_d b)
              @ drop (nat (splitLine - startLine_d b)) (changes_d b) = changes_d b
          \<and> js_get bid (snd (ChangeBlock_split bid splitLine bs)) = None
          \<and> (\<forall>other. other \<noteq> bid \<and> other \<noteq> bid @ ''-part1''
                  \<and> other \<noteq> bid @ ''-part2'' \<longrightarrow>
                js_get other (snd (ChangeBlock_split bid splitLine bs)) = js_get other bs))"
proof (intro conjI impI)
  assume "splitLine \<le> startLine_d b \<or> splitLine \<ge> endLine_d b"
  then show "ChangeBlock_split bid splitLine bs = (None, bs)"
    using assms by (auto simp: ChangeBlock_split_def Let_def)
next
  assume r: "startLine_d b < splitLine \<and> splitLine < endLine_d b"
  then have nn: "0 \<le> splitLine - startLine_d b" by simp
  have sp: "ChangeBlock_split bid splitLine bs =
      (Some (bid @ ''-part1'', bid @ ''-part2''),
       ChangeBlock_remove bid
         (ChangeBlock_create (bid @ ''-part2'') splitLine (endLine_d b) (userName_d b)
            (drop (nat (splitLine - startLine_d b)) (changes_d b)) (changeType_d b)
            (ChangeBlock_create (bid @ ''-part1'') (startLine_d b) (splitLine - 1)
               (userName_d b) (take (nat (splitLine - startLine_d b)) (changes_d b))
               (changeType_d b) bs)))"
    using assms r
    by (simp add: ChangeBlock_split_def Let_def js_slice_prefix[OF nn] js_slice_suffix[OF nn])
  show "fst (ChangeBlock_split bid splitLine bs)
          = Some (bid @ ''-part1'', bid @ ''-part2'')"
    by (simp add: sp)
  show "js_get (bid @ ''-part1'') (snd (ChangeBlock_split bid splitLine bs))
          = Some \<lparr>startLine_d = startLine_d b, endLine_d = splitLine - 1,
                  userName_d = userName_d b,
                  changes_d = take (nat (splitLine - startLine_d b)) (changes_d b),
                  changeType_d = changeType_d b\<rparr>"
    by (simp add: sp js_get_remove js_get_create)
  show "js_get (bid @ ''-part2'') (snd (ChangeBlock_split bid splitLine bs))
          = Some \<lparr>startLine_d = splitLine, endLine_d = endLine_d b,
                  userName_d = userName_d b,
                  changes_d = drop (nat (splitLine - startLine_d b)) (changes_d b),
                  changeType_d = changeType_d b\<rparr>"
    by (simp add: sp js_get_remove js_get_create)
  show "take (nat (splitLine - startLine_d b)) (changes_d b)
          @ drop (nat (splitLine - startLine_d b)) (changes_d b) = changes_d b"
    by simp
  show "js_get bid (snd (ChangeBlock_split bid splitLine bs)) = None"
    by (simp add: sp js_get_remove)
  show "\<forall>other. other \<noteq> bid \<and> other \<noteq> bid @ ''-part1''
            \<and> other \<noteq> bid @ ''-part2'' \<longrightarrow>
          js_get other (snd (ChangeBlock_split bid splitLine bs)) = js_get other bs"
    by (simp add: sp js_get_remove js_get_create)
qed

theorem ChangeBlock_split_spec_witness:
  "ChangeBlock_split ''b'' 3
     [(''b'', \<lparr>startLine_d = 3, endLine_d = 7, userName_d = ''User A'',
              changes_d = [''p'', ''q'', ''r'', ''s'', ''t''], changeType_d = Added\<rparr>)]
   = (None,
     [(''b'', \<lparr>startLine_d = 3, endLine_d = 7, userName_d = ''User A'',
              changes_d = [''p'', ''q'', ''r'', ''s'', ''t''], changeType_d = Added\<rparr>)])
   \<and> ChangeBlock_split ''b'' 7
     [(''b'', \<lparr>startLine_d = 3, endLine_d = 7, userName_d = ''User A'',
              changes_d = [''p'', ''q'', ''r'', ''s'', ''t''], changeType_d = Added\<rparr>)]
   = (None,
     [(''b'', \<lparr>startLine_d = 3, endLine_d = 7, userName_d = ''User A'',
              changes_d = [''p'', ''q'', ''r'', ''s'', ''t''], changeType_d = Added\<rparr>)])
   \<and> js_get ''b-part1'' (snd (ChangeBlock_split ''b'' 5
     [(''b'', \<lparr>startLine_d = 3, endLine_d = 7, userName_d = ''User A'',
              changes_d = [''p'', ''q'', ''r'', ''s'', ''t''], changeType_d = Added\<rparr>)]))
   = Some \<lparr>startLine_d = 3, endLine_d = 4, userName_d = ''User A'',
           changes_d = [''p'', ''q''], changeType_d = Added\<rparr>
   \<and> js_get ''b-part2'' (snd (ChangeBlock_split ''b'' 5
     [(''b'', \<lparr>startLine_d = 3, endLine_d = 7, userName_d = ''User A'',
              changes_d = [''p'', ''q'', ''r'', ''s'', ''t''], changeType_d = Added\<rparr>)]))
   = Some \<lparr>startLine_d = 5, endLine_d = 7, userName_d = ''User A'',
           changes_d = [''r'', ''s'', ''t''], changeType_d = Added\<rparr>
   \<and> js_get ''b'' (snd (ChangeBlock_split ''b'' 5
     [(''b'', \<lparr>startLine_d = 3, endLine_d = 7, userName_d = ''User A'',
              changes_d = [''p'', ''q'', ''r'', ''s'', ''t''], changeType_d = Added\<rparr>)]))
   = None"
proof -
  let ?b = "\<lparr>startLine_d = 3, endLine_d = 7, userName_d = ''User A'',
              changes_d = [''p'', ''q'', ''r'', ''s'', ''t''], changeType_d = Added\<rparr>"
  have g: "js_get ''b'' [(''b'', ?b)] = Some ?b"
    by (simp add: js_get_def)
  have two: "nat 2 = Suc (Suc 0)" by simp
  show ?thesis
    using ChangeBlock_split_spec[OF g, of 3] ChangeBlock_split_spec[OF g, of 7]
          ChangeBlock_split_spec[OF g, of 5]
    by (simp add: two)
qed

section \<open>Claims about the grouping of facts into blocks\<close>

lemma runs_nonempty: "r \<in> set (runs fs) \<Longrightarrow> r \<noteq> []"
  by (induction fs arbitrary: r) (auto split: list.splits if_splits)

lemma runs_Nil_iff: "runs fs = [] \<longleftrightarrow> fs = []"
  by (cases fs) (auto split: list.splits)

lemma concat_runs: "concat (runs fs) = fs"
  by (induction fs) (auto split: list.splits)

lemma hd_runs: "runs (f # fs) = r # rs \<Longrightarrow> hd r = f"
  by (auto split: list.splits if_splits)

lemma consecutive_runs: "r \<in> set (runs fs) \<Longrightarrow> consecutive_lines (map lineNumber r)"
proof (induction fs arbitrary: r)
  case Nil
  then show ?case by simp
next
  case (Cons f fs)
  show ?case
  proof (cases "runs fs")
    case Nil
    with Cons.prems show ?thesis by simp
  next
    case (Cons r' rs)
    then have ne: "r' \<noteq> []" using runs_nonempty[of r' fs] by simp
    have c': "consecutive_lines (map lineNumber r')"
      using Cons.IH[of r'] Cons by simp
    show ?thesis
      using Cons.prems Cons Cons.IH ne c'
      by (cases r') (auto split: if_splits)
  qed
qed

lemma gaps_runs: "gaps_between (runs fs)"
proof (induction fs)
  case Nil
  show ?case by simp
next
  case (Cons f fs)
  show ?case
  proof (cases "runs fs")
    case Nil
    then show ?thesis by simp
  next
    case r: (Cons r' rs)
    then have ne: "r' \<noteq> []" using runs_nonempty[of r' fs] by simp
    show ?thesis
      using Cons r ne by (cases rs) auto
  qed
qed

lemma fold_kind_Edited: "fold_kind Edited r = Edited"
  unfolding fold_kind_def by (induction r) auto

lemma fold_kind_Cons:
  "fold_kind k (f # r) = fold_kind (if k \<noteq> changeType_c f then Edited else k) r"
  by (simp add: fold_kind_def)

lemma fold_kind_all:
  "fold_kind k r = (if list_all (\<lambda>f. changeType_c f = k) r then k else Edited)"
proof (induction r arbitrary: k)
  case Nil
  show ?case by (simp add: fold_kind_def)
next
  case (Cons f fs)
  show ?case
  proof (cases "k = changeType_c f")
    case True
    then have "fold_kind k (f # fs) = fold_kind k fs"
      by (simp add: fold_kind_Cons)
    then show ?thesis using Cons[of k] True by simp
  next
    case False
    then show ?thesis by (auto simp add: fold_kind_Cons fold_kind_Edited)
  qed
qed

lemma run_kind_Cons: "run_kind (f # r) = fold_kind (changeType_c f) r"
  by (simp add: run_kind_def fold_kind_all)

lemma block_of_run_single:
  "block_of_run u clock (length blocks) [f] = new_block u clock blocks f"
  by (simp add: block_of_run_def new_block_def run_kind_def)

lemma block_of_run_Cons:
  "r \<noteq> [] \<Longrightarrow>
   block_of_run u clock (length blocks) (f # r) = extend_block (new_block u clock blocks f) r"
  by (simp add: block_of_run_def new_block_def extend_block_def run_kind_Cons)

lemma extend_block_Cons:
  "r \<noteq> [] \<Longrightarrow> extend_block b (f # r) =
     extend_block (b\<lparr>endLine_b := lineNumber f,
                     changes_b := changes_b b @ [lineContent f],
                     changeType_b := (if changeType_b b \<noteq> changeType_c f then Edited
                                      else changeType_b b)\<rparr>) r"
  by (simp add: extend_block_def fold_kind_Cons)

lemma extend_block_single:
  "extend_block b [f] =
     b\<lparr>endLine_b := lineNumber f,
       changes_b := changes_b b @ [lineContent f],
       changeType_b := (if changeType_b b \<noteq> changeType_c f then Edited
                        else changeType_b b)\<rparr>"
  by (simp add: extend_block_def fold_kind_def)

lemma endLine_extend_block:
  "endLine_b (extend_block b r) = (if r = [] then endLine_b b else lineNumber (last r))"
  by (simp add: extend_block_def)

lemma blocks_from_Cons:
  "blocks_from u clock n (r # rs) = block_of_run u clock n r # blocks_from u clock (Suc n) rs"
  by (simp add: blocks_from_def)

lemma blocks_from_Nil: "blocks_from u clock n [] = []"
  by (simp add: blocks_from_def)

lemma fold_from_current:
  "finish (foldl (block_step u clock) (blocks, Some cur) fs) =
     blocks @
       (case runs fs of
          [] \<Rightarrow> [cur]
        | r # rs \<Rightarrow>
            if lineNumber (hd r) = endLine_b cur + 1 then
              extend_block cur r # blocks_from u clock (Suc (length blocks)) rs
            else cur # blocks_from u clock (Suc (length blocks)) (r # rs))"
proof (induction fs arbitrary: blocks cur)
  case Nil
  show ?case by (simp add: finish_def)
next
  case (Cons f fs)
  show ?case
  proof (cases "lineNumber f = endLine_b cur + 1")
    case True
    let ?cur' = "cur\<lparr>endLine_b := lineNumber f,
                     changes_b := changes_b cur @ [lineContent f],
                     changeType_b := (if changeType_b cur \<noteq> changeType_c f then Edited
                                      else changeType_b cur)\<rparr>"
    have "finish (foldl (block_step u clock) (blocks, Some cur) (f # fs)) =
          finish (foldl (block_step u clock) (blocks, Some ?cur') fs)"
      using True by simp
    also have "\<dots> = blocks @
       (case runs fs of
          [] \<Rightarrow> [?cur']
        | r # rs \<Rightarrow>
            if lineNumber (hd r) = endLine_b ?cur' + 1 then
              extend_block ?cur' r # blocks_from u clock (Suc (length blocks)) rs
            else ?cur' # blocks_from u clock (Suc (length blocks)) (r # rs))"
      by (rule Cons.IH)
    also have "\<dots> = blocks @
       (case runs (f # fs) of
          [] \<Rightarrow> [cur]
        | r # rs \<Rightarrow>
            if lineNumber (hd r) = endLine_b cur + 1 then
              extend_block cur r # blocks_from u clock (Suc (length blocks)) rs
            else cur # blocks_from u clock (Suc (length blocks)) (r # rs))"
    proof (cases "runs fs")
      case Nil
      then show ?thesis using True by (simp add: extend_block_single blocks_from_Nil)
    next
      case r: (Cons r' rs')
      then have ne: "r' \<noteq> []" using runs_nonempty[of r' fs] by simp
      show ?thesis
        using True r ne
        by (simp add: extend_block_Cons extend_block_single)
    qed
    finally show ?thesis .
  next
    case False
    let ?nb = "new_block u clock (blocks @ [cur]) f"
    have "finish (foldl (block_step u clock) (blocks, Some cur) (f # fs)) =
          finish (foldl (block_step u clock) (blocks @ [cur], Some ?nb) fs)"
      using False by simp
    also have "\<dots> = (blocks @ [cur]) @
       (case runs fs of
          [] \<Rightarrow> [?nb]
        | r # rs \<Rightarrow>
            if lineNumber (hd r) = endLine_b ?nb + 1 then
              extend_block ?nb r # blocks_from u clock (Suc (length (blocks @ [cur]))) rs
            else ?nb # blocks_from u clock (Suc (length (blocks @ [cur]))) (r # rs))"
      by (rule Cons.IH)
    also have "\<dots> = blocks @
       (case runs (f # fs) of
          [] \<Rightarrow> [cur]
        | r # rs \<Rightarrow>
            if lineNumber (hd r) = endLine_b cur + 1 then
              extend_block cur r # blocks_from u clock (Suc (length blocks)) rs
            else cur # blocks_from u clock (Suc (length blocks)) (r # rs))"
    proof (cases "runs fs")
      case Nil
      then show ?thesis
        using False block_of_run_single[of u clock "blocks @ [cur]" f]
        by (simp add: blocks_from_Cons blocks_from_Nil)
    next
      case r: (Cons r' rs')
      then have ne: "r' \<noteq> []" using runs_nonempty[of r' fs] by simp
      have e: "endLine_b ?nb = lineNumber f" by (simp add: new_block_def)
      show ?thesis
        using False r ne e block_of_run_single[of u clock "blocks @ [cur]" f]
          block_of_run_Cons[OF ne, of u clock "blocks @ [cur]" f]
        by (simp add: blocks_from_Cons)
    qed
    finally show ?thesis .
  qed
qed

lemma createChangeBlocks_refines:
  "createChangeBlocks chs u clock = groupIntoBlocks chs u clock"
proof (cases "sort_key lineNumber chs")
  case Nil
  then have "chs = []" by (metis length_sort length_0_conv)
  then show ?thesis
    by (simp add: createChangeBlocks_def groupIntoBlocks_def blocks_from_Nil)
next
  case (Cons f fs)
  then have ne: "chs \<noteq> []" by auto
  have "createChangeBlocks chs u clock =
          finish (foldl (block_step u clock) ([], None) (f # fs))"
    using ne Cons by (simp add: createChangeBlocks_def finish_def Let_def)
  also have "\<dots> = finish (foldl (block_step u clock) ([], Some (new_block u clock [] f)) fs)"
    by simp
  also have "\<dots> = blocks_from u clock 0 (runs (f # fs))"
  proof (cases "runs fs")
    case Nil
    then show ?thesis
      using block_of_run_single[of u clock "[]" f]
      by (simp add: fold_from_current blocks_from_Cons blocks_from_Nil)
  next
    case r: (Cons r' rs')
    then have ne': "r' \<noteq> []" using runs_nonempty[of r' fs] by simp
    have e: "endLine_b (new_block u clock [] f) = lineNumber f" by (simp add: new_block_def)
    show ?thesis
      using r ne' e block_of_run_single[of u clock "[]" f]
        block_of_run_Cons[OF ne', of u clock "[]" f]
      by (simp add: fold_from_current blocks_from_Cons)
  qed
  finally show ?thesis by (simp add: groupIntoBlocks_def Cons)
qed

lemma changes_blocks_from:
  "concat (map changes_b (blocks_from u clock n rs)) = map lineContent (concat rs)"
  by (induction rs arbitrary: n) (simp_all add: blocks_from_Nil blocks_from_Cons block_of_run_def)

lemma run_kind_mixed:
  "list_ex (\<lambda>f. changeType_c f = Added) r \<Longrightarrow> list_ex (\<lambda>f. changeType_c f = Edited) r
   \<Longrightarrow> run_kind r = Edited"
  by (cases "changeType_c (hd r)") (force simp: run_kind_def list_all_iff list_ex_iff)+

text \<open>
  Claim C7: \<^verbatim>\<open>createChangeBlocks\<close> computes \<open>groupIntoBlocks\<close>: it sorts the facts
  by line number and makes one block of each run of the sorted list. The runs partition
  the sorted facts in order; inside a run each line number is the previous one plus 1;
  a run never starts one line after the previous run ends (any other gap starts a new
  block); a run that holds an added and an edited fact gives a block of kind
  \<open>Edited\<close>; the blocks' contents, concatenated, are the contents of the sorted facts.
\<close>

theorem createChangeBlocks_groups:
  "createChangeBlocks chs u clock = groupIntoBlocks chs u clock
   \<and> sorted (map lineNumber (sort_key lineNumber chs))
   \<and> concat (runs (sort_key lineNumber chs)) = sort_key lineNumber chs
   \<and> list_all (\<lambda>r. r \<noteq> [] \<and> consecutive_lines (map lineNumber r))
        (runs (sort_key lineNumber chs))
   \<and> gaps_between (runs (sort_key lineNumber chs))
   \<and> list_all (\<lambda>r. list_ex (\<lambda>f. changeType_c f = Added) r
                    \<and> list_ex (\<lambda>f. changeType_c f = Edited) r
                    \<longrightarrow> run_kind r = Edited)
        (runs (sort_key lineNumber chs))
   \<and> concat (map changes_b (createChangeBlocks chs u clock))
       = map lineContent (sort_key lineNumber chs)"
proof -
  have "list_all (\<lambda>r. r \<noteq> [] \<and> consecutive_lines (map lineNumber r))
          (runs (sort_key lineNumber chs))"
    by (simp add: list_all_iff runs_nonempty consecutive_runs)
  moreover have "list_all (\<lambda>r. list_ex (\<lambda>f. changeType_c f = Added) r
                    \<and> list_ex (\<lambda>f. changeType_c f = Edited) r
                    \<longrightarrow> run_kind r = Edited)
        (runs (sort_key lineNumber chs))"
    by (simp add: list_all_iff run_kind_mixed)
  moreover have "concat (map changes_b (createChangeBlocks chs u clock))
       = map lineContent (sort_key lineNumber chs)"
    by (simp add: createChangeBlocks_refines groupIntoBlocks_def changes_blocks_from concat_runs)
  ultimately show ?thesis
    by (simp add: createChangeBlocks_refines concat_runs gaps_runs)
qed

theorem createChangeBlocks_groups_witness:
  "createChangeBlocks
     [\<lparr>changeType_c = Edited, userName_c = ''User A'', lineNumber = 5, lineContent = ''e'',
       timestamp_c = 40\<rparr>,
      \<lparr>changeType_c = Added, userName_c = ''User A'', lineNumber = 1, lineContent = ''a'',
       timestamp_c = 10\<rparr>,
      \<lparr>changeType_c = Added, userName_c = ''User A'', lineNumber = 4, lineContent = ''d'',
       timestamp_c = 30\<rparr>,
      \<lparr>changeType_c = Added, userName_c = ''User A'', lineNumber = 2, lineContent = ''b'',
       timestamp_c = 20\<rparr>]
     ''User A'' (\<lambda>n. 1000)
   = [\<lparr>blockId = (''User A'', 1000, 0), startLine = 1, endLine_b = 2,
       changes_b = [''a'', ''b''], changeType_b = Added\<rparr>,
      \<lparr>blockId = (''User A'', 1000, 1), startLine = 4, endLine_b = 5,
       changes_b = [''d'', ''e''], changeType_b = Edited\<rparr>]"
  using createChangeBlocks_groups[of
     "[\<lparr>changeType_c = Edited, userName_c = ''User A'', lineNumber = 5, lineContent = ''e'',
       timestamp_c = 40\<rparr>,
      \<lparr>changeType_c = Added, userName_c = ''User A'', lineNumber = 1, lineContent = ''a'',
       timestamp_c = 10\<rparr>,
      \<lparr>changeType_c = Added, userName_c = ''User A'', lineNumber = 4, lineContent = ''d'',
       timestamp_c = 30\<rparr>,
      \<lparr>changeType_c = Added, userName_c = ''User A'', lineNumber = 2, lineContent = ''b'',
       timestamp_c = 20\<rparr>]" "''User A''" "\<lambda>n. 1000"]
  by (simp add: groupIntoBlocks_def blocks_from_def block_of_run_def run_kind_def)

section \<open>Claims about re-anchoring on a content change\<close>

lemma findIndex_Some_iff:
  "findIndex p xs = Some j \<longleftrightarrow> j < length xs \<and> p (xs ! j) \<and> (\<forall>i<j. \<not> p (xs ! i))"
proof (induction xs arbitrary: j)
  case Nil
  show ?case by simp
next
  case (Cons x xs)
  show ?case
  proof (cases "p x")
    case True
    then show ?thesis by (cases j) auto
  next
    case False
    show ?thesis
    proof (cases j)
      case 0
      with False show ?thesis by auto
    next
      case (Suc j')
      have "(\<forall>i<Suc j'. \<not> p ((x # xs) ! i)) \<longleftrightarrow> (\<forall>i<j'. \<not> p (xs ! i))"
        using False by (auto simp: less_Suc_eq_0_disj)
      with False Suc Cons[of j'] show ?thesis by auto
    qed
  qed
qed

lemma findIndex_None_iff: "findIndex p xs = None \<longleftrightarrow> (\<forall>x\<in>set xs. \<not> p x)"
  by (induction xs) auto

lemma findIndex_cong_pred: "(\<And>x. p x = q x) \<Longrightarrow> findIndex p xs = findIndex q xs"
  by (induction xs) auto

lemma icon_move_target: "icon_move oldLines newLines k = icon_target oldLines newLines k"
proof (cases k)
  case (RangeKey s e)
  then show ?thesis by (simp add: icon_move_def icon_target_def)
next
  case (RangeEndKey s e)
  then show ?thesis by (simp add: icon_move_def icon_target_def)
next
  case (LineKey n)
  show ?thesis
  proof (cases "1 \<le> n \<and> n \<le> int (length oldLines)")
    case True
    then have "js_index oldLines (n - 1) = Some (oldLines ! nat (n - 1))"
      by (simp add: js_index_def)
    moreover have "findIndex (\<lambda>l. Some l = Some (oldLines ! nat (n - 1))) newLines
                 = findIndex (\<lambda>l. l = oldLines ! nat (n - 1)) newLines"
      by (rule findIndex_cong_pred) simp
    ultimately show ?thesis
      using True LineKey
      by (simp add: icon_move_def icon_target_def Let_def split: option.splits)
  next
    case False
    have "findIndex (\<lambda>l. Some l = None) newLines = None"
      by (simp add: findIndex_None_iff)
    moreover have "n \<le> int (length oldLines) \<Longrightarrow> js_index oldLines (n - 1) = None"
      using False by (simp add: js_index_def)
    ultimately show ?thesis
      using False LineKey by (auto simp: icon_move_def icon_target_def Let_def)
  qed
qed

lemma js_keys_js_set_present: "k \<in> set (js_keys m) \<Longrightarrow> js_keys (js_set k v m) = js_keys m"
  by (induction k v m rule: js_set.induct) (auto simp: js_keys_def)

lemma js_get_Some_key: "js_get k m = Some v \<Longrightarrow> k \<in> set (js_keys m)"
  by (auto simp: js_get_def js_keys_def dest: map_of_SomeD intro: rev_image_eqI)

lemma js_keys_apply_block_updates: "js_keys (apply_block_updates ups bs) = js_keys bs"
proof (induction ups bs rule: apply_block_updates.induct)
  case (1 bs)
  show ?case by simp
next
  case (2 bid s e rest bs)
  show ?case
  proof (cases "js_get bid bs")
    case None
    with 2 show ?thesis by simp
  next
    case (Some b)
    with 2 show ?thesis
      by (simp add: js_keys_js_set_present[OF js_get_Some_key[OF Some]])
  qed
qed

lemma js_get_apply_block_updates:
  "distinct (map fst ups) \<Longrightarrow>
   js_get bid (apply_block_updates ups bs) =
     (case map_of ups bid of
        Some (s, e) \<Rightarrow> map_option (\<lambda>b. b\<lparr>startLine_d := s, endLine_d := e\<rparr>) (js_get bid bs)
      | None \<Rightarrow> js_get bid bs)"
proof (induction ups bs rule: apply_block_updates.induct)
  case (1 bs)
  show ?case by simp
next
  case (2 bid' s e rest bs)
  then have d: "distinct (map fst rest)" and nin: "bid' \<notin> fst ` set rest" by auto
  have none: "map_of rest bid' = None"
    using nin by (simp add: map_of_eq_None_iff)
  show ?case
    using "2.IH"[OF d] none
    by (auto simp: js_get_js_set split: option.splits)
qed

lemma map_of_blocksToUpdate:
  "distinct (js_keys bs) \<Longrightarrow>
   map_of (blocksToUpdate newLines bs) bid =
     (case js_get bid bs of Some b \<Rightarrow> block_move newLines b | None \<Rightarrow> None)"
proof (induction bs)
  case Nil
  show ?case by (simp add: js_get_def)
next
  case (Cons kb rest)
  obtain k b where kb: "kb = (k, b)" by (cases kb)
  from Cons.prems kb have d: "distinct (js_keys rest)" and nin: "k \<notin> fst ` set rest"
    by (auto simp: js_keys_def)
  have "js_get k rest = None"
    using nin by (simp add: js_get_def map_of_eq_None_iff)
  then show ?case
    using Cons.IH[OF d] kb by (auto simp: js_get_def split: option.splits)
qed

lemma keys_blocksToUpdate: "fst ` set (blocksToUpdate newLines bs) \<subseteq> set (js_keys bs)"
proof (induction bs)
  case Nil
  show ?case by simp
next
  case (Cons kb rest)
  obtain k b where kb: "kb = (k, b)" by (cases kb)
  show ?case
    using Cons.IH kb by (auto simp: js_keys_def split: option.splits)
qed

lemma distinct_blocksToUpdate:
  "distinct (js_keys bs) \<Longrightarrow> distinct (map fst (blocksToUpdate newLines bs))"
proof (induction bs)
  case Nil
  show ?case by simp
next
  case (Cons kb rest)
  obtain k b where kb: "kb = (k, b)" by (cases kb)
  show ?case
    using Cons kb keys_blocksToUpdate[of newLines rest]
    by (auto simp: js_keys_def split: option.splits)
qed

lemma block_move_reanchor:
  "(case block_move newLines b of
      Some (s, e) \<Rightarrow> b\<lparr>startLine_d := s, endLine_d := e\<rparr>
    | None \<Rightarrow> b) = reanchor_block newLines b"
  by (cases "changes_d b")
     (auto simp: block_move_def reanchor_block_def js_index_def Let_def split: option.splits)

lemma js_get_ChangeBlock_adjustByContent:
  assumes "distinct (js_keys bs)"
  shows "js_get bid (ChangeBlock_adjustByContent oldLines newLines bs) =
           map_option (reanchor_block newLines) (js_get bid bs)"
proof (cases "js_get bid bs")
  case None
  then show ?thesis
    using assms
    by (simp add: ChangeBlock_adjustByContent_def js_get_apply_block_updates
          distinct_blocksToUpdate map_of_blocksToUpdate)
next
  case (Some b)
  then show ?thesis
    using assms block_move_reanchor[where newLines = newLines and b = b]
    by (auto simp: ChangeBlock_adjustByContent_def js_get_apply_block_updates
          distinct_blocksToUpdate map_of_blocksToUpdate split: option.splits)
qed

lemma iconsToUpdate_planned:
  "iconsToUpdate oldLines newLines ics = planned_moves oldLines newLines ics"
proof (induction ics)
  case Nil
  show ?case by (simp add: planned_moves_def map_filter_simps)
next
  case (Cons kv rest)
  obtain k ic where kv: "kv = (k, ic)" by (cases kv)
  show ?case
    using Cons kv
    by (auto simp: planned_moves_def map_filter_simps icon_move_target split: option.splits)
qed

lemma set_planned_moves:
  "set (planned_moves oldLines newLines ics) =
     {(ic, k, t). (k, ic) \<in> set ics \<and> icon_target oldLines newLines k = Some t}"
proof (induction ics)
  case Nil
  show ?case by (simp add: planned_moves_def map_filter_simps)
next
  case (Cons kv rest)
  obtain k0 ic0 where kv: "kv = (k0, ic0)" by (cases kv)
  have step: "planned_moves oldLines newLines (kv # rest) =
      (case icon_target oldLines newLines k0 of
         None \<Rightarrow> planned_moves oldLines newLines rest
       | Some t \<Rightarrow> (ic0, k0, t) # planned_moves oldLines newLines rest)"
    by (simp add: planned_moves_def map_filter_simps kv split: option.splits)
  show ?case
    unfolding step using Cons kv by (auto split: option.splits)
qed

lemma old_keys_planned_moves:
  "map (\<lambda>u. fst (snd u)) (planned_moves oldLines newLines ics)
     = filter (\<lambda>k. icon_target oldLines newLines k \<noteq> None) (js_keys ics)"
proof (induction ics)
  case Nil
  show ?case by (simp add: planned_moves_def map_filter_simps js_keys_def)
next
  case (Cons kv rest)
  then show ?case
    by (auto simp: planned_moves_def map_filter_simps js_keys_def split: option.splits)
qed

lemma length_js_delete_present:
  "distinct (js_keys m) \<Longrightarrow> k \<in> set (js_keys m) \<Longrightarrow> Suc (length (js_delete k m)) = length m"
proof (induction m)
  case Nil
  then show ?case by (simp add: js_keys_def)
next
  case (Cons kv m)
  show ?case
  proof (cases "fst kv = k")
    case True
    with Cons.prems have "k \<notin> fst ` set m" by (auto simp: js_keys_def)
    then have "filter (\<lambda>kv. fst kv \<noteq> k) m = m"
      by (auto simp: filter_id_conv)
    with True show ?thesis by (simp add: js_delete_def)
  next
    case False
    with Cons show ?thesis by (auto simp: js_delete_def js_keys_def)
  qed
qed

lemma js_keys_js_delete: "set (js_keys (js_delete k m)) = set (js_keys m) - {k}"
  by (auto simp: js_keys_def js_delete_def)

lemma js_keys_js_set: "set (js_keys (js_set k v m)) = insert k (set (js_keys m))"
  using keys_js_set[of k v m] by (simp add: js_keys_def)

lemma distinct_js_keys_step:
  "distinct (js_keys m) \<Longrightarrow> distinct (js_keys (js_set k v (js_delete k' m)))"
  using distinct_js_set[OF distinct_js_delete, of m k v k'] by (simp add: js_keys_def)

lemma js_get_key_iff: "k \<in> set (js_keys m) \<longleftrightarrow> js_get k m \<noteq> None"
  by (auto simp: js_get_def js_keys_def map_of_eq_None_iff)

text \<open>
  The sequence of moves on any Map whose keys include the old keys of the moves: when
  the moves are safe, the number of icons is kept, each moved icon is under its new
  line, and each icon that is not moved is under its key.
\<close>

lemma apply_icon_updates_safe:
  assumes "distinct (js_keys m)"
    and "distinct (map (\<lambda>u. fst (snd u)) ups)"
    and "\<forall>u\<in>set ups. js_get (fst (snd u)) m = Some (fst u)"
    and "moves_safe ups m"
  shows "distinct (js_keys (apply_icon_updates ups m))
     \<and> length (apply_icon_updates ups m) = length m
     \<and> (\<forall>u\<in>set ups. js_get (LineKey (snd (snd u))) (apply_icon_updates ups m)
                          = Some ((fst u)\<lparr>line_i := snd (snd u)\<rparr>))
     \<and> (\<forall>k. k \<notin> (\<lambda>u. fst (snd u)) ` set ups \<longrightarrow>
              js_get k m \<noteq> None \<longrightarrow> js_get k (apply_icon_updates ups m) = js_get k m)"
  using assms
proof (induction ups arbitrary: m)
  case Nil
  then show ?case by simp
next
  case (Cons u rest)
  obtain ic old t where u: "u = (ic, old, t)" by (cases u)
  let ?d = "js_delete old m"
  let ?m' = "js_set (LineKey t) (ic\<lparr>line_i := t\<rparr>) ?d"
  have oldin: "old \<in> set (js_keys m)"
    using Cons.prems(3) u by (simp add: js_get_key_iff)
  have free: "LineKey t \<notin> set (js_keys ?d)" and safe': "moves_safe rest ?m'"
    using Cons.prems(4) u by simp_all
  have d': "distinct (js_keys ?m')"
    using Cons.prems(1) by (rule distinct_js_keys_step)
  have len: "length ?m' = length m"
  proof -
    have "length ?m' = Suc (length ?d)"
      using free by (simp add: length_js_set js_keys_def)
    then show ?thesis
      using length_js_delete_present[OF Cons.prems(1) oldin] by simp
  qed
  have dr: "distinct (map (\<lambda>u. fst (snd u)) rest)"
    and oldnot: "old \<notin> (\<lambda>u. fst (snd u)) ` set rest"
    using Cons.prems(2) u by auto
  have get': "\<And>k. js_get k ?m' =
      (if k = LineKey t then Some (ic\<lparr>line_i := t\<rparr>) else if k = old then None else js_get k m)"
    by (simp add: js_get_js_set js_get_js_delete)
  have keep: "\<And>k. k \<noteq> old \<Longrightarrow> js_get k m \<noteq> None \<Longrightarrow> k \<noteq> LineKey t"
  proof
    fix k assume "k \<noteq> old" "js_get k m \<noteq> None" "k = LineKey t"
    then have "LineKey t \<in> set (js_keys ?d)"
      by (simp add: js_keys_js_delete js_get_key_iff)
    with free show False by simp
  qed
  have pr: "\<forall>u'\<in>set rest. js_get (fst (snd u')) ?m' = Some (fst u')"
  proof
    fix u' assume in_rest: "u' \<in> set rest"
    then have g: "js_get (fst (snd u')) m = Some (fst u')"
      using Cons.prems(3) by simp
    have ne: "fst (snd u') \<noteq> old"
      using oldnot in_rest by auto
    have "fst (snd u') \<noteq> LineKey t"
      using keep[OF ne] g by simp
    then show "js_get (fst (snd u')) ?m' = Some (fst u')"
      using ne g by (simp add: get')
  qed
  note IH = Cons.IH[OF d' dr pr safe']
  have ap: "apply_icon_updates (u # rest) m = apply_icon_updates rest ?m'"
    by (simp add: u)
  have tnot: "LineKey t \<notin> (\<lambda>u. fst (snd u)) ` set rest"
  proof
    assume "LineKey t \<in> (\<lambda>u. fst (snd u)) ` set rest"
    then obtain u' where u': "u' \<in> set rest" "fst (snd u') = LineKey t" by auto
    have ne: "LineKey t \<noteq> old"
      using oldnot u' by force
    have "js_get (LineKey t) m = Some (fst u')"
      using Cons.prems(3) u' by force
    then have "js_get (LineKey t) m \<noteq> None" by simp
    with keep[OF ne] show False by simp
  qed
  have c1: "distinct (js_keys (apply_icon_updates (u # rest) m))"
    using IH by (simp add: ap)
  have c2: "length (apply_icon_updates (u # rest) m) = length m"
    using IH len by (simp add: ap)
  have c3: "\<forall>u'\<in>set (u # rest).
        js_get (LineKey (snd (snd u'))) (apply_icon_updates (u # rest) m)
          = Some ((fst u')\<lparr>line_i := snd (snd u')\<rparr>)"
  proof -
    have "js_get (LineKey t) (apply_icon_updates rest ?m') = js_get (LineKey t) ?m'"
      using IH tnot by (simp add: get')
    then have "js_get (LineKey t) (apply_icon_updates rest ?m') = Some (ic\<lparr>line_i := t\<rparr>)"
      by (simp add: get')
    then show ?thesis
      using IH by (simp add: ap u)
  qed
  have c4: "\<forall>k. k \<notin> (\<lambda>u. fst (snd u)) ` set (u # rest) \<longrightarrow>
              js_get k m \<noteq> None \<longrightarrow> js_get k (apply_icon_updates (u # rest) m) = js_get k m"
  proof (intro allI impI)
    fix k assume kn: "k \<notin> (\<lambda>u. fst (snd u)) ` set (u # rest)" and kg: "js_get k m \<noteq> None"
    then have ne: "k \<noteq> old" and kr: "k \<notin> (\<lambda>u. fst (snd u)) ` set rest"
      using u by auto
    have nt: "k \<noteq> LineKey t" using keep[OF ne kg] .
    have g': "js_get k ?m' = js_get k m"
      using ne nt by (simp add: get')
    then have "js_get k (apply_icon_updates rest ?m') = js_get k ?m'"
      using IH kr kg by simp
    then show "js_get k (apply_icon_updates (u # rest) m) = js_get k m"
      using g' by (simp add: ap)
  qed
  show ?case using c1 c2 c3 c4 by blast
qed

text \<open>
  The moves never add an icon, and they keep the number of icons exactly when they are
  safe: a move onto a line that holds an icon overwrites that icon.
\<close>

lemma apply_icon_updates_length:
  assumes "distinct (js_keys m)"
    and "distinct (map (\<lambda>u. fst (snd u)) ups)"
    and "(\<lambda>u. fst (snd u)) ` set ups \<subseteq> set (js_keys m)"
  shows "length (apply_icon_updates ups m) \<le> length m
     \<and> (moves_safe ups m \<longleftrightarrow> length (apply_icon_updates ups m) = length m)"
  using assms
proof (induction ups arbitrary: m)
  case Nil
  then show ?case by simp
next
  case (Cons u rest)
  obtain ic old t where u: "u = (ic, old, t)" by (cases u)
  let ?d = "js_delete old m"
  let ?m' = "js_set (LineKey t) (ic\<lparr>line_i := t\<rparr>) ?d"
  have oldin: "old \<in> set (js_keys m)"
    using Cons.prems(3) u by simp
  have d': "distinct (js_keys ?m')"
    using Cons.prems(1) by (rule distinct_js_keys_step)
  have dr: "distinct (map (\<lambda>u. fst (snd u)) rest)"
    and oldnot: "old \<notin> (\<lambda>u. fst (snd u)) ` set rest"
    using Cons.prems(2) u by auto
  have sub: "(\<lambda>u. fst (snd u)) ` set rest \<subseteq> set (js_keys ?m')"
    using Cons.prems(3) oldnot by (auto simp: js_keys_js_set js_keys_js_delete)
  note IH = Cons.IH[OF d' dr sub]
  have ap: "apply_icon_updates (u # rest) m = apply_icon_updates rest ?m'"
    by (simp add: u)
  have ld: "Suc (length ?d) = length m"
    using length_js_delete_present[OF Cons.prems(1) oldin] .
  show ?case
  proof (cases "LineKey t \<in> set (js_keys ?d)")
    case True
    then have "length ?m' = length ?d"
      by (simp add: length_js_set js_keys_def)
    then have "length ?m' < length m" using ld by simp
    then have "length (apply_icon_updates (u # rest) m) < length m"
      using IH by (simp add: ap)
    then show ?thesis using True u by simp
  next
    case False
    then have "length ?m' = Suc (length ?d)"
      by (simp add: length_js_set js_keys_def)
    then have "length ?m' = length m" using ld by simp
    then show ?thesis using IH False u by (simp add: ap)
  qed
qed

lemma planned_moves_old_keys:
  assumes "distinct (js_keys ics)"
  shows "distinct (map (\<lambda>u. fst (snd u)) (planned_moves oldLines newLines ics))"
    and "(\<lambda>u. fst (snd u)) ` set (planned_moves oldLines newLines ics) \<subseteq> set (js_keys ics)"
    and "\<forall>u\<in>set (planned_moves oldLines newLines ics). js_get (fst (snd u)) ics = Some (fst u)"
proof -
  show "distinct (map (\<lambda>u. fst (snd u)) (planned_moves oldLines newLines ics))"
    using assms by (simp add: old_keys_planned_moves)
  show "(\<lambda>u. fst (snd u)) ` set (planned_moves oldLines newLines ics) \<subseteq> set (js_keys ics)"
    by (auto simp: set_planned_moves js_keys_def intro: rev_image_eqI)
  show "\<forall>u\<in>set (planned_moves oldLines newLines ics). js_get (fst (snd u)) ics = Some (fst u)"
    using assms by (auto simp: set_planned_moves js_get_def js_keys_def)
qed

lemma snd_GutterIcons_adjustByContent:
  "snd (GutterIcons_adjustByContent oldLines newLines ics)
     = apply_icon_updates (planned_moves oldLines newLines ics) ics"
  by (simp add: GutterIcons_adjustByContent_def Let_def iconsToUpdate_planned)

lemma moves_safe_iff_no_icon_lost:
  assumes "distinct (js_keys ics)"
  shows "moves_safe (planned_moves oldLines newLines ics) ics
     \<longleftrightarrow> length (snd (GutterIcons_adjustByContent oldLines newLines ics)) = length ics"
  using apply_icon_updates_length[OF assms planned_moves_old_keys(1,2)[OF assms]]
  by (simp add: snd_GutterIcons_adjustByContent)

lemma updatePositions_line_keys:
  "GutterIcons_updatePositions ics = (if list_all is_line_key (js_keys ics) then Inr () else Inl SyntaxError)"
proof (induction ics)
  case Nil
  show ?case by (simp add: js_keys_def)
next
  case (Cons kv rest)
  obtain k ic where kv: "kv = (k, ic)" by (cases kv)
  show ?case
    using Cons kv by (cases k) (auto simp: js_keys_def)
qed

lemma line_keys_apply_icon_updates:
  "list_all is_line_key (js_keys ics) \<Longrightarrow> list_all is_line_key (js_keys (apply_icon_updates ups ics))"
proof (induction ups arbitrary: ics)
  case Nil
  then show ?case by simp
next
  case (Cons u rest)
  obtain ic old t where u: "u = (ic, old, t)" by (cases u)
  have "list_all is_line_key (js_keys (js_set (LineKey t) (ic\<lparr>line_i := t\<rparr>) (js_delete old ics)))"
    using Cons.prems by (auto simp: list_all_iff js_keys_js_set js_keys_js_delete)
  then show ?case
    using Cons.IH u by simp
qed

lemma GutterIcons_adjust_returns:
  assumes "list_all is_line_key (js_keys ics) \<or> planned_moves oldLines newLines ics = []"
  shows "fst (GutterIcons_adjustByContent oldLines newLines ics) = Inr ()"
  using assms line_keys_apply_icon_updates[of ics "planned_moves oldLines newLines ics"]
  by (auto simp: GutterIcons_adjustByContent_def Let_def iconsToUpdate_planned
        updatePositions_line_keys)

lemma GutterIcons_adjust_entry:
  assumes dk: "distinct (js_keys ics)"
    and safe: "moves_safe (planned_moves oldLines newLines ics) ics"
    and mem: "(k, ic) \<in> set ics"
  shows "case icon_target oldLines newLines k of
           Some t \<Rightarrow>
             js_get (LineKey t) (snd (GutterIcons_adjustByContent oldLines newLines ics))
               = Some (ic\<lparr>line_i := t\<rparr>)
         | None \<Rightarrow>
             js_get k (snd (GutterIcons_adjustByContent oldLines newLines ics)) = Some ic"
proof -
  let ?ups = "planned_moves oldLines newLines ics"
  note facts = apply_icon_updates_safe[OF dk planned_moves_old_keys(1)[OF dk]
      planned_moves_old_keys(3)[OF dk] safe]
  have orig: "js_get k ics = Some ic"
    using dk mem by (simp add: js_get_def js_keys_def)
  show ?thesis
  proof (cases "icon_target oldLines newLines k")
    case None
    then have "k \<notin> (\<lambda>u. fst (snd u)) ` set ?ups"
      by (auto simp: set_planned_moves)
    then have "js_get k (apply_icon_updates ?ups ics) = js_get k ics"
      using facts orig by simp
    then show ?thesis
      using None orig by (simp add: snd_GutterIcons_adjustByContent)
  next
    case (Some t)
    then have "(ic, k, t) \<in> set ?ups"
      using mem by (simp add: set_planned_moves)
    then have "js_get (LineKey t) (apply_icon_updates ?ups ics) = Some (ic\<lparr>line_i := t\<rparr>)"
      using facts by force
    then show ?thesis
      using Some by (simp add: snd_GutterIcons_adjustByContent)
  qed
qed

text \<open>
  Claim C8 says that every annotation component re-anchors each annotated line to the
  first exact match of its recorded content and never deletes an annotation. Four
  runs show where this fails.

  \<^item> The markers: \<^verbatim>\<open>Marker.adjustByContent\<close> only refreshes positions. With the
    old line \<open>''a''\<close> at line 1 and at index 1 (line 2) of the new lines, the marker of
    line 1 stays under key 1 and nothing is stored under key 2.

  \<^item> An icon is deleted: after \<^verbatim>\<open>show(1, 'User A', 'added')\<close> and
    \<^verbatim>\<open>show(2, 'User B', 'edited')\<close>, a line inserted above both lines moves the
    icon of line 1 onto key 2, which still holds the icon of line 2, and the move of
    that icon then deletes key 2. One icon is left, the moves are not safe.

  \<^item> The call throws: after \<^verbatim>\<open>show(2, 'User A', 'edited')\<close> and
    \<^verbatim>\<open>show(4, 'User A', 'added', {}, 5)\<close> the same insertion moves the icon of
    line 2, and \<^verbatim>\<open>updatePositions()\<close> then queries
    \<^verbatim>\<open>span:nth-child(4-5)\<close>.

  \<^item> A range icon is not re-anchored: after \<^verbatim>\<open>show(3, 'User A', 'added', {}, 3)\<close>
    the icon is keyed by \<^verbatim>\<open>'3-3'\<close> and stays there, although the old line 3 is
    line 4 of the new lines.
\<close>

theorem Marker_adjustByContent_counterexample:
  "findIndex (\<lambda>l. l = ''a'') [''x'', ''a''] = Some 1
   \<and> js_index [''a''] (1 - 1) = Some ''a''
   \<and> Marker_adjustByContent [''a''] [''x'', ''a'']
       [(1, \<lparr>line = 1, endLine = 1, rawUser = ''User A'', changeType = Added\<rparr>)]
     = [(1, \<lparr>line = 1, endLine = 1, rawUser = ''User A'', changeType = Added\<rparr>)]
   \<and> js_get 2 (Marker_adjustByContent [''a''] [''x'', ''a'']
       [(1, \<lparr>line = 1, endLine = 1, rawUser = ''User A'', changeType = Added\<rparr>)]) = None
   \<and> GutterIcons_adjustByContent [''a'', ''b''] [''x'', ''a'', ''b'']
       [(LineKey 1, \<lparr>line_i = 1, endLine_i = None, userName_i = ''User A'',
                    changeType_i = Added\<rparr>),
        (LineKey 2, \<lparr>line_i = 2, endLine_i = None, userName_i = ''User B'',
                    changeType_i = Edited\<rparr>)]
     = (Inr (), [(LineKey 3, \<lparr>line_i = 3, endLine_i = None, userName_i = ''User B'',
                              changeType_i = Edited\<rparr>)])
   \<and> \<not> moves_safe (planned_moves [''a'', ''b''] [''x'', ''a'', ''b'']
       [(LineKey 1, \<lparr>line_i = 1, endLine_i = None, userName_i = ''User A'',
                    changeType_i = Added\<rparr>),
        (LineKey 2, \<lparr>line_i = 2, endLine_i = None, userName_i = ''User B'',
                    changeType_i = Edited\<rparr>)])
       [(LineKey 1, \<lparr>line_i = 1, endLine_i = None, userName_i = ''User A'',
                    changeType_i = Added\<rparr>),
        (LineKey 2, \<lparr>line_i = 2, endLine_i = None, userName_i = ''User B'',
                    changeType_i = Edited\<rparr>)]
   \<and> fst (GutterIcons_adjustByContent [''a'', ''b''] [''x'', ''a'', ''b'']
       [(LineKey 2, \<lparr>line_i = 2, endLine_i = None, userName_i = ''User A'',
                    changeType_i = Edited\<rparr>),
        (RangeKey 4 5, \<lparr>line_i = 4, endLine_i = Some 5, userName_i = ''User A'',
                       changeType_i = Added\<rparr>),
        (RangeEndKey 4 5, \<lparr>line_i = 5, endLine_i = None, userName_i = ''User A'',
                          changeType_i = Added\<rparr>)])
     = Inl SyntaxError
   \<and> findIndex (\<lambda>l. l = ''c'') [''x'', ''a'', ''b'', ''c''] = Some 3
   \<and> GutterIcons_adjustByContent [''a'', ''b'', ''c''] [''x'', ''a'', ''b'', ''c'']
       [(RangeKey 3 3, \<lparr>line_i = 3, endLine_i = Some 3, userName_i = ''User A'',
                       changeType_i = Added\<rparr>)]
     = (Inr (), [(RangeKey 3 3, \<lparr>line_i = 3, endLine_i = Some 3, userName_i = ''User A'',
                                 changeType_i = Added\<rparr>)])"
proof -
  have one: "nat 1 = Suc 0" by simp
  show ?thesis
    by (simp add: Marker_adjustByContent_def Marker_updatePosition_def js_index_def js_get_def
        GutterIcons_adjustByContent_def icon_move_def js_delete_def js_keys_def
        planned_moves_def map_filter_simps icon_target_def one)
qed

text \<open>
  Claim C8 as amended. \<^verbatim>\<open>Marker.adjustByContent\<close> leaves every marker where it
  is. \<^verbatim>\<open>ChangeBlock.adjustByContent\<close> deletes and adds no block, and moves each
  block whose first recorded line occurs in the new lines to the first occurrence,
  keeping its length; a block without a match stays. \<^verbatim>\<open>GutterIcons.adjustByContent\<close>,
  when no icon is moved onto a line that holds an icon at that moment, keeps the number
  of icons, moves each icon keyed by a line number whose old line occurs in the new
  lines to the first occurrence, and leaves every other icon (no match, a key beyond
  the old lines, a range key) under its key; the call returns normally when no range
  icon is shown or no icon moves.
\<close>

theorem adjustByContent_by_component:
  assumes "distinct (js_keys bs)" and "distinct (js_keys ics)"
    and "moves_safe (planned_moves oldLines newLines ics) ics"
  shows "Marker_adjustByContent oldLines newLines pm = pm
     \<and> js_keys (ChangeBlock_adjustByContent oldLines newLines bs) = js_keys bs
     \<and> (\<forall>bid. js_get bid (ChangeBlock_adjustByContent oldLines newLines bs)
                = map_option (reanchor_block newLines) (js_get bid bs))
     \<and> length (snd (GutterIcons_adjustByContent oldLines newLines ics)) = length ics
     \<and> (\<forall>(k, ic)\<in>set ics.
           case icon_target oldLines newLines k of
             Some t \<Rightarrow>
               js_get (LineKey t) (snd (GutterIcons_adjustByContent oldLines newLines ics))
                 = Some (ic\<lparr>line_i := t\<rparr>)
           | None \<Rightarrow>
               js_get k (snd (GutterIcons_adjustByContent oldLines newLines ics)) = Some ic)
     \<and> (list_all is_line_key (js_keys ics) \<or> planned_moves oldLines newLines ics = []
          \<longrightarrow> fst (GutterIcons_adjustByContent oldLines newLines ics) = Inr ())"
proof (intro conjI)
  show "Marker_adjustByContent oldLines newLines pm = pm"
    by (simp add: Marker_adjustByContent_def Marker_updatePosition_def)
  show "js_keys (ChangeBlock_adjustByContent oldLines newLines bs) = js_keys bs"
    by (simp add: ChangeBlock_adjustByContent_def js_keys_apply_block_updates)
  show "\<forall>bid. js_get bid (ChangeBlock_adjustByContent oldLines newLines bs)
                = map_option (reanchor_block newLines) (js_get bid bs)"
    using assms(1) by (simp add: js_get_ChangeBlock_adjustByContent)
  show "length (snd (GutterIcons_adjustByContent oldLines newLines ics)) = length ics"
    using moves_safe_iff_no_icon_lost[OF assms(2)] assms(3) by simp
  show "\<forall>(k, ic)\<in>set ics.
           case icon_target oldLines newLines k of
             Some t \<Rightarrow>
               js_get (LineKey t) (snd (GutterIcons_adjustByContent oldLines newLines ics))
                 = Some (ic\<lparr>line_i := t\<rparr>)
           | None \<Rightarrow>
               js_get k (snd (GutterIcons_adjustByContent oldLines newLines ics)) = Some ic"
    using GutterIcons_adjust_entry[OF assms(2) assms(3)] by blast
  show "list_all is_line_key (js_keys ics) \<or> planned_moves oldLines newLines ics = []
          \<longrightarrow> fst (GutterIcons_adjustByContent oldLines newLines ics) = Inr ()"
    using GutterIcons_adjust_returns by blast
qed

theorem adjustByContent_by_component_witness:
  "Marker_adjustByContent [''a'', ''b''] [''x'', ''a'', ''b'']
       [(1, \<lparr>line = 1, endLine = 1, rawUser = ''User A'', changeType = Added\<rparr>)]
     = [(1, \<lparr>line = 1, endLine = 1, rawUser = ''User A'', changeType = Added\<rparr>)]
   \<and> js_get ''k'' (ChangeBlock_adjustByContent [''a'', ''b''] [''x'', ''a'', ''b'']
       [(''k'', \<lparr>startLine_d = 1, endLine_d = 2, userName_d = ''User A'',
                changes_d = [''a'', ''b''], changeType_d = Added\<rparr>)])
     = Some \<lparr>startLine_d = 2, endLine_d = 3, userName_d = ''User A'',
             changes_d = [''a'', ''b''], changeType_d = Added\<rparr>
   \<and> length (snd (GutterIcons_adjustByContent [''a'', ''b''] [''x'', ''a'', ''b'']
       [(LineKey 2, \<lparr>line_i = 2, endLine_i = None, userName_i = ''User B'',
                    changeType_i = Edited\<rparr>),
        (LineKey 1, \<lparr>line_i = 1, endLine_i = None, userName_i = ''User A'',
                    changeType_i = Added\<rparr>),
        (LineKey 5, \<lparr>line_i = 5, endLine_i = None, userName_i = ''User A'',
                    changeType_i = Edited\<rparr>)])) = 3
   \<and> js_get (LineKey 3) (snd (GutterIcons_adjustByContent [''a'', ''b''] [''x'', ''a'', ''b'']
       [(LineKey 2, \<lparr>line_i = 2, endLine_i = None, userName_i = ''User B'',
                    changeType_i = Edited\<rparr>),
        (LineKey 1, \<lparr>line_i = 1, endLine_i = None, userName_i = ''User A'',
                    changeType_i = Added\<rparr>),
        (LineKey 5, \<lparr>line_i = 5, endLine_i = None, userName_i = ''User A'',
                    changeType_i = Edited\<rparr>)]))
     = Some \<lparr>line_i = 3, endLine_i = None, userName_i = ''User B'', changeType_i = Edited\<rparr>
   \<and> js_get (LineKey 2) (snd (GutterIcons_adjustByContent [''a'', ''b''] [''x'', ''a'', ''b'']
       [(LineKey 2, \<lparr>line_i = 2, endLine_i = None, userName_i = ''User B'',
                    changeType_i = Edited\<rparr>),
        (LineKey 1, \<lparr>line_i = 1, endLine_i = None, userName_i = ''User A'',
                    changeType_i = Added\<rparr>),
        (LineKey 5, \<lparr>line_i = 5, endLine_i = None, userName_i = ''User A'',
                    changeType_i = Edited\<rparr>)]))
     = Some \<lparr>line_i = 2, endLine_i = None, userName_i = ''User A'', changeType_i = Added\<rparr>
   \<and> js_get (LineKey 5) (snd (GutterIcons_adjustByContent [''a'', ''b''] [''x'', ''a'', ''b'']
       [(LineKey 2, \<lparr>line_i = 2, endLine_i = None, userName_i = ''User B'',
                    changeType_i = Edited\<rparr>),
        (LineKey 1, \<lparr>line_i = 1, endLine_i = None, userName_i = ''User A'',
                    changeType_i = Added\<rparr>),
        (LineKey 5, \<lparr>line_i = 5, endLine_i = None, userName_i = ''User A'',
                    changeType_i = Edited\<rparr>)]))
     = Some \<lparr>line_i = 5, endLine_i = None, userName_i = ''User A'', changeType_i = Edited\<rparr>
   \<and> fst (GutterIcons_adjustByContent [''a'', ''b''] [''x'', ''a'', ''b'']
       [(LineKey 2, \<lparr>line_i = 2, endLine_i = None, userName_i = ''User B'',
                    changeType_i = Edited\<rparr>),
        (LineKey 1, \<lparr>line_i = 1, endLine_i = None, userName_i = ''User A'',
                    changeType_i = Added\<rparr>),
        (LineKey 5, \<lparr>line_i = 5, endLine_i = None, userName_i = ''User A'',
                    changeType_i = Edited\<rparr>)])
     = Inr ()"
proof -
  let ?bs = "[(''k'', \<lparr>startLine_d = 1, endLine_d = 2, userName_d = ''User A'',
                changes_d = [''a'', ''b''], changeType_d = Added\<rparr>)]"
  let ?ics = "[(LineKey 2, \<lparr>line_i = 2, endLine_i = None, userName_i = ''User B'',
                    changeType_i = Edited\<rparr>),
        (LineKey 1, \<lparr>line_i = 1, endLine_i = None, userName_i = ''User A'',
                    changeType_i = Added\<rparr>),
        (LineKey 5, \<lparr>line_i = 5, endLine_i = None, userName_i = ''User A'',
                    changeType_i = Edited\<rparr>)]"
  have one: "nat 1 = Suc 0" by simp
  have h1: "distinct (js_keys ?bs)" by (simp add: js_keys_def)
  have h2: "distinct (js_keys ?ics)" by (simp add: js_keys_def)
  have h3: "moves_safe (planned_moves [''a'', ''b''] [''x'', ''a'', ''b''] ?ics) ?ics"
    by (simp add: planned_moves_def map_filter_simps icon_target_def js_keys_def
        js_delete_def one)
  show ?thesis
    using adjustByContent_by_component[OF h1 h2 h3,
        of "[(1, \<lparr>line = 1, endLine = 1, rawUser = ''User A'', changeType = Added\<rparr>)]"]
    by (simp add: reanchor_block_def icon_target_def js_get_def js_keys_def one)
qed

section \<open>Claims about the burst detector\<close>

lemma lines_consecutive_from:
  "map line_r (consecutive_from p es) = [p + 1..p + int (length (consecutive_from p es))]"
proof (induction es arbitrary: p)
  case Nil
  show ?case by simp
next
  case (Cons e es)
  show ?case
  proof (cases "line_r e = p + 1")
    case True
    have "map line_r (consecutive_from p (e # es))
          = (p + 1) # map line_r (consecutive_from (p + 1) es)"
      using True by simp
    also have "\<dots> = (p + 1) # [p + 1 + 1..p + 1 + int (length (consecutive_from (p + 1) es))]"
      by (simp only: Cons[of "p + 1"])
    also have "\<dots> = [p + 1..p + 1 + int (length (consecutive_from (p + 1) es))]"
      by (rule upto_rec1[symmetric]) simp
    finally have m: "map line_r (consecutive_from p (e # es))
          = [p + 1..p + 1 + int (length (consecutive_from (p + 1) es))]" .
    have "p + 1 + int (length (consecutive_from (p + 1) es))
          = p + int (length (consecutive_from p (e # es)))"
      using True by simp
    with m show ?thesis by (simp only:)
  next
    case False
    then show ?thesis by simp
  qed
qed

lemma lines_collect_consecutive:
  "xs \<noteq> [] \<Longrightarrow>
   map line_r (collect_consecutive xs) =
     [line_r (hd xs)..line_r (hd xs) + int (length (collect_consecutive xs)) - 1]"
proof (cases xs)
  case Nil
  assume "xs \<noteq> []"
  with Nil show ?thesis by simp
next
  case (Cons e es)
  have "[line_r e..line_r e + int (length (consecutive_from (line_r e) es))]
        = line_r e # [line_r e + 1..line_r e + int (length (consecutive_from (line_r e) es))]"
    by (rule upto_rec1) simp
  then show ?thesis
    using Cons by (simp add: collect_consecutive_def lines_consecutive_from)
qed

lemma collect_consecutive_nonempty: "xs \<noteq> [] \<Longrightarrow> collect_consecutive xs \<noteq> []"
  by (cases xs) (simp_all add: collect_consecutive_def)

lemma hd_collect_consecutive: "xs \<noteq> [] \<Longrightarrow> hd (collect_consecutive xs) = hd xs"
  by (cases xs) (simp_all add: collect_consecutive_def)

lemma last_collect_consecutive:
  assumes "xs \<noteq> []"
  shows "line_r (last (collect_consecutive xs))
           = line_r (hd xs) + int (length (collect_consecutive xs)) - 1"
proof -
  let ?run = "collect_consecutive xs"
  have ne: "?run \<noteq> []" using assms by (rule collect_consecutive_nonempty)
  then have "line_r (last ?run) = last (map line_r ?run)"
    by (simp add: last_map)
  also have "\<dots> = last [line_r (hd xs)..line_r (hd xs) + int (length ?run) - 1]"
    by (simp add: lines_collect_consecutive[OF assms])
  also have "\<dots> = line_r (hd xs) + int (length ?run) - 1"
  proof -
    have "line_r (hd xs) \<le> line_r (hd xs) + int (length ?run) - 1"
      using ne by (cases ?run) auto
    from upto_rec2[OF this] show ?thesis by simp
  qed
  finally show ?thesis .
qed

lemma take_consecutive_from:
  "take (length (consecutive_from p es)) es = consecutive_from p es"
  by (induction es arbitrary: p) auto

lemma take_collect_consecutive:
  "take (length (collect_consecutive xs)) xs = collect_consecutive xs"
  by (cases xs) (simp_all add: collect_consecutive_def take_consecutive_from)

lemma length_collect_consecutive: "length (collect_consecutive xs) \<le> length xs"
  using arg_cong[OF take_collect_consecutive[of xs], of length] by simp

lemma consecutive_from_maximal:
  "length (consecutive_from p es) < length es \<Longrightarrow>
   line_r (es ! length (consecutive_from p es)) \<noteq> p + int (length (consecutive_from p es)) + 1"
proof (induction es arbitrary: p)
  case Nil
  then show ?case by simp
next
  case (Cons e es)
  show ?case
  proof (cases "line_r e = p + 1")
    case True
    then show ?thesis
      using Cons.IH[of "p + 1"] Cons.prems by simp
  next
    case False
    then show ?thesis by simp
  qed
qed

lemma collect_consecutive_maximal:
  assumes "length (collect_consecutive xs) < length xs"
  shows "line_r (xs ! length (collect_consecutive xs))
           \<noteq> line_r (last (collect_consecutive xs)) + 1"
proof (cases xs)
  case Nil
  with assms show ?thesis by simp
next
  case (Cons e es)
  then have ne: "xs \<noteq> []" by simp
  have "length (consecutive_from (line_r e) es) < length es"
    using assms Cons by (simp add: collect_consecutive_def)
  from consecutive_from_maximal[OF this]
  show ?thesis
    using Cons last_collect_consecutive[OF ne]
    by (simp add: collect_consecutive_def)
qed

lemma js_get_foldl_js_set_other:
  "k \<notin> f ` set es \<Longrightarrow> js_get k (foldl (\<lambda>m e. js_set (f e) (g e) m) chs es) = js_get k chs"
  by (induction es arbitrary: chs) (auto simp: js_get_js_set)

lemma js_get_foldl_js_set:
  "distinct (map f es) \<Longrightarrow> e \<in> set es \<Longrightarrow>
   js_get (f e) (foldl (\<lambda>m e. js_set (f e) (g e) m) chs es) = Some (g e)"
proof (induction es arbitrary: chs)
  case Nil
  then show ?case by simp
next
  case (Cons a es)
  show ?case
  proof (cases "e = a")
    case True
    then show ?thesis
      using Cons.prems by (simp add: js_get_foldl_js_set_other js_get_js_set)
  next
    case False
    then show ?thesis
      using Cons.IH[of "js_set (f a) (g a) chs"] Cons.prems by simp
  qed
qed

lemma js_get_track_range:
  "distinct (map line_r es) \<Longrightarrow> e \<in> set es \<Longrightarrow>
   js_get (line_r e) (track_range ct u es chs) = Some (range_fact ct u e)"
proof -
  assume d: "distinct (map line_r es)" and e: "e \<in> set es"
  have "track_range ct u es chs =
          foldl (\<lambda>m e. js_set (line_r e) (range_fact ct u e) m) chs es"
    by (simp add: track_range_def range_fact_def)
  then show ?thesis
    using js_get_foldl_js_set[where f = line_r and g = "range_fact ct u", OF d e, of chs]
    by simp
qed

lemma consecutive_lines_from:
  "consecutive_lines (p # map line_r (consecutive_from p es))"
  by (induction es arbitrary: p) auto

lemma consecutive_lines_collect: "consecutive_lines (map line_r (collect_consecutive xs))"
  by (cases xs) (simp_all add: collect_consecutive_def consecutive_lines_from)

lemma run_range_conditions:
  assumes "2 \<le> length (collect_consecutive xs)"
  shows "xs \<noteq> []" and "1 < length xs"
    and "line_r (hd xs) < line_r (last (collect_consecutive xs))"
    and "line_r (hd (collect_consecutive xs)) = line_r (hd xs)"
proof -
  show ne: "xs \<noteq> []" using assms by (auto simp: collect_consecutive_def)
  show "1 < length xs"
    using assms length_collect_consecutive[of xs] by simp
  show "line_r (hd xs) < line_r (last (collect_consecutive xs))"
    using assms last_collect_consecutive[OF ne] by simp
  show "line_r (hd (collect_consecutive xs)) = line_r (hd xs)"
    using ne by (simp add: hd_collect_consecutive)
qed

lemma detectRangeEdit_range:
  assumes "2 \<le> length (burst_run ln content tEntry now (window st))"
  shows "detectRangeEdit ed ln content base u tEntry now tRes st =
     (IsRange (line_r (hd (burst_run ln content tEntry now (window st))))
              (line_r (last (burst_run ln content tEntry now (window st)))) None,
      st\<lparr>window := [],
         changes := track_range Edited u (burst_run ln content tEntry now (window st))
                      (changes st),
         reservations :=
           reserve_range (line_r (hd (burst_run ln content tEntry now (window st))))
             (line_r (last (burst_run ln content tEntry now (window st)))) u tRes
             (reservations st),
         persistentMarkers :=
           Marker_show ed (Some (line_r (hd (burst_run ln content tEntry now (window st)))))
             u Edited (Some (line_r (last (burst_run ln content tEntry now (window st)))))
             (remove_individual_markers
                (line_r (hd (burst_run ln content tEntry now (window st))))
                (line_r (last (burst_run ln content tEntry now (window st))))
                (persistentMarkers st))\<rparr>)"
  using run_range_conditions[OF assms[unfolded burst_run_def]] assms
  by (simp add: detectRangeEdit_def burst_run_def Let_def)

lemma detectRangeEdit_single:
  assumes "length (burst_run ln content tEntry now (window st)) < 2"
  shows "detectRangeEdit ed ln content base u tEntry now tRes st =
     (NotRange, st\<lparr>window := push_and_prune ln content tEntry now (window st)\<rparr>)"
  using assms by (simp add: detectRangeEdit_def burst_run_def Let_def)

lemma detectRangeInsertion_range:
  assumes "2 \<le> length (burst_run ln content tEntry now (window st))"
    and "insertion_between base ln (line_r (hd (burst_run ln content tEntry now (window st))))"
  shows "detectRangeInsertion ed ln content base u tEntry now tRes st =
     (IsRange (line_r (hd (burst_run ln content tEntry now (window st))))
              (line_r (last (burst_run ln content tEntry now (window st))))
              (Some (line_r (last (burst_run ln content tEntry now (window st)))
                     - line_r (hd (burst_run ln content tEntry now (window st))) + 1)),
      st\<lparr>window := [],
         changes := track_range Added u (burst_run ln content tEntry now (window st))
                      (changes st),
         reservations :=
           reserve_range (line_r (hd (burst_run ln content tEntry now (window st))))
             (line_r (last (burst_run ln content tEntry now (window st)))) u tRes
             (reservations st),
         persistentMarkers :=
           Marker_show ed (Some (line_r (hd (burst_run ln content tEntry now (window st)))))
             u Added (Some (line_r (last (burst_run ln content tEntry now (window st)))))
             (persistentMarkers st)\<rparr>)"
  using run_range_conditions[OF assms(1)[unfolded burst_run_def]] assms
    split_lines_nonempty[of base]
  by (simp add: detectRangeInsertion_def burst_run_def insertion_between_def Let_def)

lemma detectRangeInsertion_single:
  assumes "length (burst_run ln content tEntry now (window st)) < 2
           \<or> \<not> insertion_between base ln
                 (line_r (hd (burst_run ln content tEntry now (window st))))"
  shows "detectRangeInsertion ed ln content base u tEntry now tRes st =
     (NotRange, st\<lparr>window := push_and_prune ln content tEntry now (window st)\<rparr>)"
proof (cases "2 \<le> length (burst_run ln content tEntry now (window st))")
  case False
  then show ?thesis
    by (simp add: detectRangeInsertion_def burst_run_def Let_def)
next
  case True
  with assms have ni: "\<not> insertion_between base ln
                 (line_r (hd (burst_run ln content tEntry now (window st))))"
    by auto
  show ?thesis
    using run_range_conditions[OF True[unfolded burst_run_def]] True ni
    by (auto simp: detectRangeInsertion_def burst_run_def insertion_between_def Let_def)
qed

lemma distinct_lines_run: "distinct (map line_r (collect_consecutive xs))"
proof (cases "xs = []")
  case True
  then show ?thesis by (simp add: collect_consecutive_def)
next
  case False
  then show ?thesis by (simp add: lines_collect_consecutive)
qed

lemma lines_run_range:
  assumes "2 \<le> length (collect_consecutive xs)"
  shows "map line_r (collect_consecutive xs) =
           [line_r (hd (collect_consecutive xs))..line_r (last (collect_consecutive xs))]"
proof -
  have ne: "xs \<noteq> []" using assms by (auto simp: collect_consecutive_def)
  show ?thesis
    using lines_collect_consecutive[OF ne]
    by (simp add: last_collect_consecutive[OF ne] hd_collect_consecutive[OF ne])
qed

text \<open>
  Claim C4 says that every edit or insertion event whose run has at least two entries is
  reported as a range event and clears the window. For an insertion this fails when the
  triggering line lies beyond the baseline: with a baseline of one line, an entry for
  line 2 in the window and an insertion on line 3 within the 500 ms, the run is [2, 3],
  the detector reports no range, and the window keeps both entries.
\<close>

theorem detectRangeInsertion_counterexample:
  "length (burst_run 3 [CHR ''a'', CHR 0x0A, CHR ''b'', CHR 0x0A, CHR ''c''] 100 100
             [\<lparr>line_r = 2, content_r = ''b'', timestamp_r = 0\<rparr>]) = 2
   \<and> fst (onLineAdded True 3 [CHR ''a'', CHR 0x0A, CHR ''b'', CHR 0x0A, CHR ''c''] ''a''
            ''User A'' 100 100 (\<lambda>l. 100) 100
            \<lparr>window = [\<lparr>line_r = 2, content_r = ''b'', timestamp_r = 0\<rparr>],
             changes = [], reservations = [], persistentMarkers = []\<rparr>) = NotRange
   \<and> window (snd (onLineAdded True 3 [CHR ''a'', CHR 0x0A, CHR ''b'', CHR 0x0A, CHR ''c''] ''a''
            ''User A'' 100 100 (\<lambda>l. 100) 100
            \<lparr>window = [\<lparr>line_r = 2, content_r = ''b'', timestamp_r = 0\<rparr>],
             changes = [], reservations = [], persistentMarkers = []\<rparr>))
     = [\<lparr>line_r = 2, content_r = ''b'', timestamp_r = 0\<rparr>,
        \<lparr>line_r = 3, content_r = ''c'', timestamp_r = 100\<rparr>]"
  by (simp add: burst_run_def push_and_prune_def collect_consecutive_def onLineAdded_def
        detectRangeInsertion_def single_line_event_def line_or_empty_def js_index_def
        newline_def Let_def)

text \<open>
  Claim C4 as amended. \<open>recent\<close> is the window with the new entry, pruned to the
  entries less than 500 ms old; \<open>run\<close> is the longest prefix of \<open>recent\<close> sorted by
  line number in which each line number is the previous one plus 1. An edit event: with
  a run of at least two entries it is reported as the range from the run's first to its
  last line, the window is cleared, every line of the range gets its own fact, and the
  range is shown to the marker component as one candidate range; with
  a shorter run a single-line event records a fact for the triggering line only and the
  window is \<open>recent\<close>. An insertion event is reported as a range, with the same
  effects, only when in addition it is an insertion between existing lines of the
  baseline; otherwise it is a single-line event and the window is \<open>recent\<close>.
\<close>

theorem burst_detector_events:
  "(let recent = push_and_prune ln content tEntry now (window st);
        run = burst_run ln content tEntry now (window st);
        edited = onLineEdited ed ln content base u tEntry now tRes tFact st;
        added = onLineAdded ed ln content base u tEntry now tRes tFact st
    in take (length run) (sort_key line_r recent) = run
     \<and> consecutive_lines (map line_r run)
     \<and> (length run < length recent \<longrightarrow>
           line_r (sort_key line_r recent ! length run) \<noteq> line_r (last run) + 1)
     \<and> (2 \<le> length run \<longrightarrow>
           fst edited = IsRange (line_r (hd run)) (line_r (last run)) None
         \<and> window (snd edited) = []
         \<and> map line_r run = [line_r (hd run)..line_r (last run)]
         \<and> (\<forall>e\<in>set run.
               js_get (line_r e) (changes (snd edited)) = Some (range_fact Edited u e))
         \<and> persistentMarkers (snd edited)
             = Marker_show ed (Some (line_r (hd run))) u Edited (Some (line_r (last run)))
                 (remove_individual_markers (line_r (hd run)) (line_r (last run))
                    (persistentMarkers st)))
     \<and> (length run < 2 \<longrightarrow>
           fst edited = NotRange
         \<and> window (snd edited) = recent
         \<and> changes (snd edited)
             = js_set ln (single_fact Edited u ln content tFact) (changes st)
         \<and> persistentMarkers (snd edited)
             = Marker_show ed (Some ln) u Edited None (persistentMarkers st))
     \<and> (2 \<le> length run \<and> insertion_between base ln (line_r (hd run)) \<longrightarrow>
           fst added = IsRange (line_r (hd run)) (line_r (last run))
                         (Some (line_r (last run) - line_r (hd run) + 1))
         \<and> window (snd added) = []
         \<and> (\<forall>e\<in>set run.
               js_get (line_r e) (changes (snd added)) = Some (range_fact Added u e))
         \<and> persistentMarkers (snd added)
             = Marker_show ed (Some (line_r (hd run))) u Added (Some (line_r (last run)))
                 (persistentMarkers st))
     \<and> (length run < 2 \<or> \<not> insertion_between base ln (line_r (hd run)) \<longrightarrow>
           fst added = NotRange
         \<and> window (snd added) = recent
         \<and> changes (snd added)
             = js_set ln (single_fact Added u ln content tFact) (changes st)
         \<and> persistentMarkers (snd added)
             = Marker_show ed (Some ln) u Added None (persistentMarkers st)))"
proof -
  let ?recent = "push_and_prune ln content tEntry now (window st)"
  let ?run = "burst_run ln content tEntry now (window st)"
  let ?edited = "onLineEdited ed ln content base u tEntry now tRes tFact st"
  let ?added = "onLineAdded ed ln content base u tEntry now tRes tFact st"
  have p1: "take (length ?run) (sort_key line_r ?recent) = ?run"
    by (simp add: burst_run_def take_collect_consecutive)
  have p2: "consecutive_lines (map line_r ?run)"
    by (simp add: burst_run_def consecutive_lines_collect)
  have p3: "length ?run < length ?recent \<longrightarrow>
           line_r (sort_key line_r ?recent ! length ?run) \<noteq> line_r (last ?run) + 1"
    using collect_consecutive_maximal[of "sort_key line_r ?recent"]
    by (simp add: burst_run_def)
  have d: "distinct (map line_r ?run)"
    by (simp add: burst_run_def distinct_lines_run)
  have p4: "2 \<le> length ?run \<longrightarrow>
           fst ?edited = IsRange (line_r (hd ?run)) (line_r (last ?run)) None
         \<and> window (snd ?edited) = []
         \<and> map line_r ?run = [line_r (hd ?run)..line_r (last ?run)]
         \<and> (\<forall>e\<in>set ?run.
               js_get (line_r e) (changes (snd ?edited)) = Some (range_fact Edited u e))
         \<and> persistentMarkers (snd ?edited)
             = Marker_show ed (Some (line_r (hd ?run))) u Edited (Some (line_r (last ?run)))
                 (remove_individual_markers (line_r (hd ?run)) (line_r (last ?run))
                    (persistentMarkers st))"
  proof
    assume r: "2 \<le> length ?run"
    have l: "map line_r ?run = [line_r (hd ?run)..line_r (last ?run)]"
      using lines_run_range[OF r[unfolded burst_run_def]] by (simp add: burst_run_def)
    show "fst ?edited = IsRange (line_r (hd ?run)) (line_r (last ?run)) None
         \<and> window (snd ?edited) = []
         \<and> map line_r ?run = [line_r (hd ?run)..line_r (last ?run)]
         \<and> (\<forall>e\<in>set ?run.
               js_get (line_r e) (changes (snd ?edited)) = Some (range_fact Edited u e))
         \<and> persistentMarkers (snd ?edited)
             = Marker_show ed (Some (line_r (hd ?run))) u Edited (Some (line_r (last ?run)))
                 (remove_individual_markers (line_r (hd ?run)) (line_r (last ?run))
                    (persistentMarkers st))"
      using l d by (simp add: onLineEdited_def detectRangeEdit_range[OF r] js_get_track_range)
  qed
  have p5: "length ?run < 2 \<longrightarrow>
           fst ?edited = NotRange
         \<and> window (snd ?edited) = ?recent
         \<and> changes (snd ?edited)
             = js_set ln (single_fact Edited u ln content tFact) (changes st)
         \<and> persistentMarkers (snd ?edited)
             = Marker_show ed (Some ln) u Edited None (persistentMarkers st)"
  proof
    assume r: "length ?run < 2"
    show "fst ?edited = NotRange
         \<and> window (snd ?edited) = ?recent
         \<and> changes (snd ?edited)
             = js_set ln (single_fact Edited u ln content tFact) (changes st)
         \<and> persistentMarkers (snd ?edited)
             = Marker_show ed (Some ln) u Edited None (persistentMarkers st)"
      by (simp add: onLineEdited_def detectRangeEdit_single[OF r] single_line_event_def
            single_fact_def Let_def)
  qed
  have p6: "2 \<le> length ?run \<and> insertion_between base ln (line_r (hd ?run)) \<longrightarrow>
           fst ?added = IsRange (line_r (hd ?run)) (line_r (last ?run))
                         (Some (line_r (last ?run) - line_r (hd ?run) + 1))
         \<and> window (snd ?added) = []
         \<and> (\<forall>e\<in>set ?run.
               js_get (line_r e) (changes (snd ?added)) = Some (range_fact Added u e))
         \<and> persistentMarkers (snd ?added)
             = Marker_show ed (Some (line_r (hd ?run))) u Added (Some (line_r (last ?run)))
                 (persistentMarkers st)"
  proof
    assume r: "2 \<le> length ?run \<and> insertion_between base ln (line_r (hd ?run))"
    then have r1: "2 \<le> length ?run" and r2: "insertion_between base ln (line_r (hd ?run))"
      by simp_all
    show "fst ?added = IsRange (line_r (hd ?run)) (line_r (last ?run))
                         (Some (line_r (last ?run) - line_r (hd ?run) + 1))
         \<and> window (snd ?added) = []
         \<and> (\<forall>e\<in>set ?run.
               js_get (line_r e) (changes (snd ?added)) = Some (range_fact Added u e))
         \<and> persistentMarkers (snd ?added)
             = Marker_show ed (Some (line_r (hd ?run))) u Added (Some (line_r (last ?run)))
                 (persistentMarkers st)"
      using d by (simp add: onLineAdded_def detectRangeInsertion_range[OF r1 r2]
            js_get_track_range)
  qed
  have p7: "length ?run < 2 \<or> \<not> insertion_between base ln (line_r (hd ?run)) \<longrightarrow>
           fst ?added = NotRange
         \<and> window (snd ?added) = ?recent
         \<and> changes (snd ?added)
             = js_set ln (single_fact Added u ln content tFact) (changes st)
         \<and> persistentMarkers (snd ?added)
             = Marker_show ed (Some ln) u Added None (persistentMarkers st)"
  proof
    assume r: "length ?run < 2 \<or> \<not> insertion_between base ln (line_r (hd ?run))"
    show "fst ?added = NotRange
         \<and> window (snd ?added) = ?recent
         \<and> changes (snd ?added)
             = js_set ln (single_fact Added u ln content tFact) (changes st)
         \<and> persistentMarkers (snd ?added)
             = Marker_show ed (Some ln) u Added None (persistentMarkers st)"
      by (simp add: onLineAdded_def detectRangeInsertion_single[OF r] single_line_event_def
            single_fact_def Let_def)
  qed
  show ?thesis
    unfolding Let_def using p1 p2 p3 p4 p5 p6 p7 by blast
qed

theorem burst_detector_events_witness:
  "fst (onLineEdited True 2 [CHR ''p'', CHR 0x0A, CHR ''q'']
      [CHR ''p'', CHR 0x0A, CHR ''q''] ''User A'' 100 100
      (\<lambda>l. 100) 100
      \<lparr>window = [\<lparr>line_r = 1, content_r = ''p'', timestamp_r = 0\<rparr>],
       changes = [], reservations = [], persistentMarkers = []\<rparr>) = IsRange 1 2 None
   \<and> window (snd (onLineEdited True 2 [CHR ''p'', CHR 0x0A, CHR ''q'']
      [CHR ''p'', CHR 0x0A, CHR ''q''] ''User A'' 100 100
      (\<lambda>l. 100) 100
      \<lparr>window = [\<lparr>line_r = 1, content_r = ''p'', timestamp_r = 0\<rparr>],
       changes = [], reservations = [], persistentMarkers = []\<rparr>)) = []
   \<and> js_get 1 (changes (snd (onLineEdited True 2 [CHR ''p'', CHR 0x0A, CHR ''q'']
      [CHR ''p'', CHR 0x0A, CHR ''q''] ''User A'' 100 100
      (\<lambda>l. 100) 100
      \<lparr>window = [\<lparr>line_r = 1, content_r = ''p'', timestamp_r = 0\<rparr>],
       changes = [], reservations = [], persistentMarkers = []\<rparr>)))
     = Some \<lparr>changeType_c = Edited, userName_c = ''User A'', lineNumber = 1,
             lineContent = ''p'', timestamp_c = 0\<rparr>
   \<and> js_get 2 (changes (snd (onLineEdited True 2 [CHR ''p'', CHR 0x0A, CHR ''q'']
      [CHR ''p'', CHR 0x0A, CHR ''q''] ''User A'' 100 100
      (\<lambda>l. 100) 100
      \<lparr>window = [\<lparr>line_r = 1, content_r = ''p'', timestamp_r = 0\<rparr>],
       changes = [], reservations = [], persistentMarkers = []\<rparr>)))
     = Some \<lparr>changeType_c = Edited, userName_c = ''User A'', lineNumber = 2,
             lineContent = ''q'', timestamp_c = 100\<rparr>
   \<and> fst (onLineAdded True 2 [CHR ''p'', CHR 0x0A, CHR ''q'']
      [CHR ''p'', CHR 0x0A, CHR ''q''] ''User A'' 100 100
      (\<lambda>l. 100) 100
      \<lparr>window = [\<lparr>line_r = 1, content_r = ''p'', timestamp_r = 0\<rparr>],
       changes = [], reservations = [], persistentMarkers = []\<rparr>) = IsRange 1 2 (Some 2)
   \<and> fst (onLineEdited True 2 [CHR ''p'', CHR 0x0A, CHR ''q'']
      [CHR ''p'', CHR 0x0A, CHR ''q''] ''User A'' 1000 1000
      (\<lambda>l. 1000) 1000
      \<lparr>window = [\<lparr>line_r = 1, content_r = ''p'', timestamp_r = 0\<rparr>],
       changes = [], reservations = [], persistentMarkers = []\<rparr>) = NotRange
   \<and> window (snd (onLineEdited True 2 [CHR ''p'', CHR 0x0A, CHR ''q'']
      [CHR ''p'', CHR 0x0A, CHR ''q''] ''User A'' 1000 1000
      (\<lambda>l. 1000) 1000
      \<lparr>window = [\<lparr>line_r = 1, content_r = ''p'', timestamp_r = 0\<rparr>],
       changes = [], reservations = [], persistentMarkers = []\<rparr>))
     = [\<lparr>line_r = 2, content_r = ''q'', timestamp_r = 1000\<rparr>]
   \<and> changes (snd (onLineEdited True 2 [CHR ''p'', CHR 0x0A, CHR ''q'']
      [CHR ''p'', CHR 0x0A, CHR ''q''] ''User A'' 1000 1000
      (\<lambda>l. 1000) 1000
      \<lparr>window = [\<lparr>line_r = 1, content_r = ''p'', timestamp_r = 0\<rparr>],
       changes = [], reservations = [], persistentMarkers = []\<rparr>))
     = [(2, \<lparr>changeType_c = Edited, userName_c = ''User A'', lineNumber = 2,
              lineContent = ''q'', timestamp_c = 1000\<rparr>)]"
proof -
  let ?C = "[CHR ''p'', CHR 0x0A, CHR ''q'']"
  let ?st = "\<lparr>window = [\<lparr>line_r = 1, content_r = ''p'', timestamp_r = 0\<rparr>],
       changes = [], reservations = [], persistentMarkers = []\<rparr>"
  have r1: "push_and_prune 2 ?C 100 100 [\<lparr>line_r = 1, content_r = ''p'', timestamp_r = 0\<rparr>]
            = [\<lparr>line_r = 1, content_r = ''p'', timestamp_r = 0\<rparr>,
               \<lparr>line_r = 2, content_r = ''q'', timestamp_r = 100\<rparr>]"
    by (simp add: push_and_prune_def newline_def line_or_empty_def js_index_def Let_def)
  have r2: "push_and_prune 2 ?C 1000 1000 [\<lparr>line_r = 1, content_r = ''p'', timestamp_r = 0\<rparr>]
            = [\<lparr>line_r = 2, content_r = ''q'', timestamp_r = 1000\<rparr>]"
    by (simp add: push_and_prune_def newline_def line_or_empty_def js_index_def Let_def)
  have b1: "burst_run 2 ?C 100 100 [\<lparr>line_r = 1, content_r = ''p'', timestamp_r = 0\<rparr>]
            = [\<lparr>line_r = 1, content_r = ''p'', timestamp_r = 0\<rparr>,
               \<lparr>line_r = 2, content_r = ''q'', timestamp_r = 100\<rparr>]"
    by (simp add: burst_run_def r1 collect_consecutive_def)
  have b2: "burst_run 2 ?C 1000 1000 [\<lparr>line_r = 1, content_r = ''p'', timestamp_r = 0\<rparr>]
            = [\<lparr>line_r = 2, content_r = ''q'', timestamp_r = 1000\<rparr>]"
    by (simp add: burst_run_def r2 collect_consecutive_def)
  have ib: "insertion_between ?C 2 1"
    by (simp add: insertion_between_def newline_def)
  note i1 = burst_detector_events[where ln = 2 and content = ?C and tEntry = 100
      and now = 100 and st = ?st and ed = True and base = ?C and u = "''User A''"
      and tRes = "\<lambda>l. 100" and tFact = 100, unfolded Let_def]
  note i2 = burst_detector_events[where ln = 2 and content = ?C and tEntry = 1000
      and now = 1000 and st = ?st and ed = True and base = ?C and u = "''User A''"
      and tRes = "\<lambda>l. 1000" and tFact = 1000, unfolded Let_def]
  from i1 ib have e1:
    "fst (onLineEdited True 2 ?C ?C ''User A'' 100 100 (\<lambda>l. 100) 100 ?st) = IsRange 1 2 None"
    "window (snd (onLineEdited True 2 ?C ?C ''User A'' 100 100 (\<lambda>l. 100) 100 ?st)) = []"
    "js_get 1 (changes (snd (onLineEdited True 2 ?C ?C ''User A'' 100 100 (\<lambda>l. 100) 100 ?st)))
       = Some (range_fact Edited ''User A'' \<lparr>line_r = 1, content_r = ''p'', timestamp_r = 0\<rparr>)"
    "js_get 2 (changes (snd (onLineEdited True 2 ?C ?C ''User A'' 100 100 (\<lambda>l. 100) 100 ?st)))
       = Some (range_fact Edited ''User A'' \<lparr>line_r = 2, content_r = ''q'', timestamp_r = 100\<rparr>)"
    "fst (onLineAdded True 2 ?C ?C ''User A'' 100 100 (\<lambda>l. 100) 100 ?st) = IsRange 1 2 (Some 2)"
    by (simp_all add: b1 r1)
  from i2 have e2:
    "fst (onLineEdited True 2 ?C ?C ''User A'' 1000 1000 (\<lambda>l. 1000) 1000 ?st) = NotRange"
    "window (snd (onLineEdited True 2 ?C ?C ''User A'' 1000 1000 (\<lambda>l. 1000) 1000 ?st))
       = [\<lparr>line_r = 2, content_r = ''q'', timestamp_r = 1000\<rparr>]"
    "changes (snd (onLineEdited True 2 ?C ?C ''User A'' 1000 1000 (\<lambda>l. 1000) 1000 ?st))
       = js_set 2 (single_fact Edited ''User A'' 2 ?C 1000) []"
    by (simp_all add: b2 r2)
  show ?thesis
    using e1 e2
    by (simp add: range_fact_def single_fact_def line_or_empty_def js_index_def newline_def)
qed

end
